theory Spec2Isabelle
  imports Main
begin

section \<open>The admission queue of utils/executor.js\<close>

text \<open>
  The executor keeps three module-level variables: the counter \<open>running\<close>, the array
  \<open>queue\<close> and the object \<open>runningScripts\<close>. JavaScript runs each function and each
  callback to its end before the next one starts, so the state between two callbacks
  is all that another callback can see; the model passes that state explicitly.

  \<open>MAX_CONCURRENT\<close> and \<open>MAX_QUEUE_SIZE\<close> are the constants 1 and 20 in the source.
  They are fields of a configuration here, with the source's values in
  \<open>default_config\<close>, so that statements about other limits can be written.
\<close>

record config =
  MAX_CONCURRENT :: int
  MAX_QUEUE_SIZE :: nat

definition default_config :: config where
  "default_config = \<lparr>MAX_CONCURRENT = 1, MAX_QUEUE_SIZE = 20\<rparr>"

text \<open>
  A unit of work is a JavaScript function (\<open>@param {Function} jobFunc\<close>, "an
  async function"). A function value is always truthy, so the test \<open>!jobFunc\<close> in
  \<open>processQueue\<close> holds exactly when \<open>queue.shift()\<close> returned \<open>undefined\<close>, that is
  when the array was empty. What the queue can observe of the call \<open>jobFunc()\<close> is
  whether it returns a promise (every \<open>async\<close> function does) or throws before
  returning one. \<open>uid\<close> is a label used only to tell units apart in the traces.
\<close>

datatype behaviour = ReturnsPromise | ThrowsSync

datatype job = Job (uid: nat) (invoke: behaviour)

text \<open>How the promise returned by a unit of work ends.\<close>

datatype settlement = Fulfilled | Rejected

text \<open>How a call of a queue function ends: it returns, or the exception thrown by
  the unit with the given label leaves it.\<close>

datatype outcome = Returned | Threw nat

text \<open>
  \<open>running\<close> and \<open>queue\<close> are the source's variables. \<open>inflight\<close> lists the units
  whose promise is pending with the \<open>finally\<close> callback attached, and \<open>started\<close> logs
  every call \<open>jobFunc()\<close> in the order made; the source has neither as a variable (the
  first lives in the promise machinery, the second is the trace of the program).
\<close>

record qstate =
  running :: int
  queue :: "job list"
  inflight :: "job list"
  started :: "job list"

definition init_state :: qstate where
  "init_state = \<lparr>running = 0, queue = [], inflight = [], started = []\<rparr>"

text \<open>
  \<^verbatim>\<open>
  function processQueue() {
      if (running >= MAX_CONCURRENT) return;
      const jobFunc = queue.shift();
      if (!jobFunc) return;
      running++;
      jobFunc().finally(() => { running--; processQueue(); });
  }
  \<close>
  When \<open>jobFunc()\<close> throws, \<open>.finally\<close> is never reached: the exception leaves
  \<open>processQueue\<close> after \<open>shift\<close> and \<open>running++\<close> have taken effect.
\<close>

definition processQueue :: "config \<Rightarrow> qstate \<Rightarrow> outcome \<times> qstate" where
  "processQueue cfg s =
     (if running s \<ge> MAX_CONCURRENT cfg then (Returned, s)
      else case queue s of
        [] \<Rightarrow> (Returned, s)
      | jobFunc # rest \<Rightarrow>
          let s1 = s\<lparr>queue := rest, running := running s + 1,
                     started := started s @ [jobFunc]\<rparr>
          in case invoke jobFunc of
               ThrowsSync \<Rightarrow> (Threw (uid jobFunc), s1)
             | ReturnsPromise \<Rightarrow> (Returned, s1\<lparr>inflight := inflight s1 @ [jobFunc]\<rparr>))"

text \<open>
  \<^verbatim>\<open>
  function enqueue(jobFunc) {
      if (queue.length >= MAX_QUEUE_SIZE) return false;
      queue.push(jobFunc);
      processQueue();
      return true;
  }
  \<close>
  The result is the boolean returned, or the label of the unit whose exception
  left \<open>processQueue\<close> and therefore \<open>enqueue\<close>.
\<close>

definition enqueue :: "config \<Rightarrow> job \<Rightarrow> qstate \<Rightarrow> (nat + bool) \<times> qstate" where
  "enqueue cfg jobFunc s =
     (if length (queue s) \<ge> MAX_QUEUE_SIZE cfg then (Inr False, s)
      else case processQueue cfg (s\<lparr>queue := queue s @ [jobFunc]\<rparr>) of
             (Threw e, s') \<Rightarrow> (Inl e, s')
           | (Returned, s') \<Rightarrow> (Inr True, s'))"

text \<open>
  \<^verbatim>\<open>
  jobFunc().finally(() => { running--; processQueue(); });
  \<close>
  The promise machinery calls the callback once when the unit's promise settles,
  whichever way; the callback takes no argument and cannot see the settlement.
  \<open>finally\<close> returns a promise of its own: it is rejected with what the callback
  throws when the callback throws, and otherwise settles as the unit's promise did,
  so it repeats a rejection of the unit. The source attaches no handler to it.
  \<open>on_settled\<close> returns how that promise ends together with the new state; the
  label is that of the unit whose error it carries. A rejection of it is an
  unhandled rejection: the error has left the queue for the host (Node.js, from
  version 15 on, ends the process unless the program handles such rejections, and
  \<open>server.js\<close> installs no handler).
\<close>

datatype finally_promise = FinallyFulfilled | FinallyRejected nat

definition on_settled ::
  "config \<Rightarrow> job \<Rightarrow> settlement \<Rightarrow> qstate \<Rightarrow> finally_promise \<times> qstate" where
  "on_settled cfg j r s =
     (case processQueue cfg
             (s\<lparr>inflight := remove1 j (inflight s), running := running s - 1\<rparr>) of
        (Threw e, s') \<Rightarrow> (FinallyRejected e, s')
      | (Returned, s') \<Rightarrow>
          (case r of Fulfilled \<Rightarrow> FinallyFulfilled | Rejected \<Rightarrow> FinallyRejected (uid j),
           s'))"

text \<open>
  Traces. The environment submits units and settles pending promises, in any
  order; a promise that is not pending cannot settle, so \<open>Settle k r\<close> stands for
  the settlement of the \<open>k\<close>-th pending promise and is void when there is none.
\<close>

datatype event = Submit job | Settle nat settlement

fun step :: "config \<Rightarrow> event \<Rightarrow> qstate \<Rightarrow> qstate" where
  "step cfg (Submit j) s = snd (enqueue cfg j s)"
| "step cfg (Settle k r) s =
     (if k < length (inflight s) then snd (on_settled cfg (inflight s ! k) r s) else s)"

fun run :: "config \<Rightarrow> event list \<Rightarrow> qstate \<Rightarrow> qstate" where
  "run cfg [] s = s"
| "run cfg (e # es) s = run cfg es (step cfg e s)"

text \<open>The units submitted by a trace, and those of them that \<open>enqueue\<close> pushed
  (every call that did not return \<open>false\<close>).\<close>

fun submitted :: "event list \<Rightarrow> job list" where
  "submitted [] = []"
| "submitted (Submit j # es) = j # submitted es"
| "submitted (Settle k r # es) = submitted es"

fun accepted :: "config \<Rightarrow> event list \<Rightarrow> qstate \<Rightarrow> job list" where
  "accepted cfg [] s = []"
| "accepted cfg (Submit j # es) s =
     (if fst (enqueue cfg j s) = Inr False then [] else [j])
       @ accepted cfg es (step cfg (Submit j) s)"
| "accepted cfg (Settle k r # es) s = accepted cfg es (step cfg (Settle k r) s)"

text \<open>No submission of the trace finds the queue at capacity.\<close>

fun never_full :: "config \<Rightarrow> event list \<Rightarrow> qstate \<Rightarrow> bool" where
  "never_full cfg [] s = True"
| "never_full cfg (Submit j # es) s =
     (length (queue s) < MAX_QUEUE_SIZE cfg \<and> never_full cfg es (step cfg (Submit j) s))"
| "never_full cfg (Settle k r # es) s = never_full cfg es (step cfg (Settle k r) s)"

text \<open>Every unit of a list returns a promise when called.\<close>

definition all_async :: "job list \<Rightarrow> bool" where
  "all_async js = list_all (\<lambda>j. invoke j = ReturnsPromise) js"

text \<open>Settle the oldest pending promise until none is pending.\<close>

function settle_all :: "config \<Rightarrow> qstate \<Rightarrow> qstate" where
  "settle_all cfg s =
     (case inflight s of
        [] \<Rightarrow> s
      | j # _ \<Rightarrow> settle_all cfg (snd (on_settled cfg j Fulfilled s)))"
  by pat_completeness auto
termination
  by (relation "measure (\<lambda>(cfg, s). length (queue s) + length (inflight s))")
     (auto simp: on_settled_def processQueue_def Let_def
           split: list.splits behaviour.splits settlement.splits)

section \<open>The process runner of utils/executor.js\<close>

subsection \<open>Library functions used by runScript\<close>

text \<open>
  \<open>path.basename\<close> and \<open>path.extname\<close> of Node.js for POSIX paths: the basename is the
  last segment of the path, trailing slashes ignored; the extension is taken from the
  last dot of that segment and is empty when the segment has no dot, starts with its
  only dot, or is \<open>..\<close>. \<open>toLowerCase\<close> is modelled on ASCII letters.
\<close>

definition basename :: "string \<Rightarrow> string" where
  "basename p =
     rev (takeWhile (\<lambda>c. c \<noteq> CHR ''/'') (dropWhile (\<lambda>c. c = CHR ''/'') (rev p)))"

definition extname :: "string \<Rightarrow> string" where
  "extname p =
     (let b = basename p;
          suffix = rev (takeWhile (\<lambda>c. c \<noteq> CHR ''.'') (rev b));
          stem = take (length b - length suffix - 1) b
      in if CHR ''.'' \<notin> set b \<or> stem = [] \<or> b = ''..'' then [] else CHR ''.'' # suffix)"

definition lower_char :: "char \<Rightarrow> char" where
  "lower_char c =
     (case map_of (zip ''ABCDEFGHIJKLMNOPQRSTUVWXYZ'' ''abcdefghijklmnopqrstuvwxyz'') c of
        Some l \<Rightarrow> l
      | None \<Rightarrow> c)"

definition toLowerCase :: "string \<Rightarrow> string" where
  "toLowerCase s = map lower_char s"

subsection \<open>Module state and tables\<close>

text \<open>
  \<^verbatim>\<open>
  const TIMEOUTS = {
      'airliquide.py': 3 * 60 * 1000,
      'nipongases.py': 3 * 60 * 1000,
      'airliquide_portugal.py': 1 * 60 * 1000
  };
  ...
  const timeout = TIMEOUTS[scriptName] || 3 * 60 * 1000;
  \<close>
  \<open>||\<close> takes its right operand when the left one is \<open>undefined\<close> or \<open>0\<close>. The lookup
  is reached only after the extension test, so with a name that ends in \<open>.py\<close> (in
  some letter case); no property that an object literal inherits has such a name.
\<close>

definition TIMEOUTS :: "string \<rightharpoonup> nat" where
  "TIMEOUTS = [''airliquide.py'' \<mapsto> 3 * 60 * 1000,
               ''nipongases.py'' \<mapsto> 3 * 60 * 1000,
               ''airliquide_portugal.py'' \<mapsto> 1 * 60 * 1000]"

definition timeout_for :: "string \<Rightarrow> nat" where
  "timeout_for scriptName =
     (case TIMEOUTS scriptName of
        None \<Rightarrow> 3 * 60 * 1000
      | Some t \<Rightarrow> if t = 0 then 3 * 60 * 1000 else t)"

text \<open>
  \<open>const runningScripts = {}\<close> is a plain object: reading a key it does not own falls
  through to \<open>Object.prototype\<close>, whose properties are all truthy, and assigning a
  boolean to the key \<open>__proto__\<close> changes nothing. \<open>is_marked\<close> is the truth value of
  \<open>runningScripts[scriptName]\<close>, \<open>mark\<close> the assignment \<open>runningScripts[scriptName] = v\<close>.
\<close>

definition inherited_keys :: "string list" where
  "inherited_keys =
     [''constructor'', ''__defineGetter__'', ''__defineSetter__'', ''hasOwnProperty'',
      ''__lookupGetter__'', ''__lookupSetter__'', ''isPrototypeOf'',
      ''propertyIsEnumerable'', ''toString'', ''valueOf'', ''__proto__'',
      ''toLocaleString'']"

definition is_marked :: "(string \<rightharpoonup> bool) \<Rightarrow> string \<Rightarrow> bool" where
  "is_marked rs scriptName =
     (case rs scriptName of Some b \<Rightarrow> b | None \<Rightarrow> scriptName \<in> set inherited_keys)"

definition mark :: "(string \<rightharpoonup> bool) \<Rightarrow> string \<Rightarrow> bool \<Rightarrow> (string \<rightharpoonup> bool)" where
  "mark rs scriptName v = (if scriptName = ''__proto__'' then rs else rs(scriptName \<mapsto> v))"

subsection \<open>One invocation\<close>

text \<open>
  The errors a call of \<open>runScript\<close> rejects with: \<open>new Error('Script already running')\<close>,
  the unsupported-extension error (carrying the extension), and the error object of
  the child's \<open>error\<close> event. The exit code passed to the \<open>close\<close> handler is a number,
  or \<open>null\<close> when a signal ended the child.
\<close>

datatype run_error = AlreadyRunning | UnsupportedExtension string | ChildError string

datatype signal = SIGTERM

datatype timer = Armed nat | Cleared | Fired

record result =
  jobId :: string
  script :: string
  exitCode :: "int option"
  stdout :: string
  stderr :: string

datatype promise = Pending | Resolved result | RejectedWith run_error

text \<open>\<open>resolve\<close> and \<open>reject\<close> of a promise act once; on a settled promise they do nothing.\<close>

definition resolve :: "promise \<Rightarrow> result \<Rightarrow> promise" where
  "resolve p v = (case p of Pending \<Rightarrow> Resolved v | _ \<Rightarrow> p)"

definition reject :: "promise \<Rightarrow> run_error \<Rightarrow> promise" where
  "reject p e = (case p of Pending \<Rightarrow> RejectedWith e | _ \<Rightarrow> p)"

definition clearTimeout :: "timer \<Rightarrow> timer" where
  "clearTimeout t = (case t of Armed _ \<Rightarrow> Cleared | _ \<Rightarrow> t)"

text \<open>
  What the closure of one call holds after the child has been spawned: the
  arguments and local constants, the command line given to \<open>spawn\<close>, the two string
  variables \<open>stdout\<close> and \<open>stderr\<close> (here \<open>stdout_buf\<close>, \<open>stderr_buf\<close>), the timer, the
  signals sent with \<open>child.kill\<close>, and the promise returned to the caller.
\<close>

record invocation =
  inv_jobId :: string
  scriptName :: string
  spawned :: "string \<times> string list"
  timeout :: nat
  killTimer :: timer
  stdout_buf :: string
  stderr_buf :: string
  signals :: "signal list"
  promise :: promise

text \<open>
  The body of the promise executor, up to the registration of the handlers. It
  returns the new \<open>runningScripts\<close> and either the error the promise is rejected
  with at once (no child is spawned) or the invocation that now waits for events.
\<close>

definition runScript ::
  "(string \<rightharpoonup> bool) \<Rightarrow> string \<Rightarrow> string list \<Rightarrow> string
     \<Rightarrow> (string \<rightharpoonup> bool) \<times> (run_error + invocation)" where
  "runScript rs scriptPath args jid =
     (let name = basename scriptPath in
      if is_marked rs name then (rs, Inl AlreadyRunning)
      else
        let rs1 = mark rs name True;
            ext = toLowerCase (extname scriptPath)
        in if ext \<noteq> ''.py'' then (mark rs1 name False, Inl (UnsupportedExtension ext))
           else
             let t = timeout_for name
             in (rs1, Inr \<lparr>inv_jobId = jid, scriptName = name,
                           spawned = (''python'', scriptPath # args),
                           timeout = t, killTimer = Armed t,
                           stdout_buf = [], stderr_buf = [], signals = [],
                           promise = Pending\<rparr>))"

text \<open>
  The handlers.
  \<^verbatim>\<open>
  child.stdout.on('data', data => { stdout += data.toString(); });
  child.stderr.on('data', data => { stderr += data.toString(); });
  setTimeout(() => { child.kill('SIGTERM'); logger.error(...); }, timeout)
  child.on('close', code => { clearTimeout(killTimer); runningScripts[scriptName] = false;
      resolve({ jobId, script: scriptName, exitCode: code,
                stdout: stdout.slice(0, 20000), stderr: stderr.slice(0, 20000) }); });
  child.on('error', err => { clearTimeout(killTimer); runningScripts[scriptName] = false;
      logger.error(...); reject(err); });
  \<close>
\<close>

definition on_stdout_data :: "string \<Rightarrow> invocation \<Rightarrow> invocation" where
  "on_stdout_data d iv = iv\<lparr>stdout_buf := stdout_buf iv @ d\<rparr>"

definition on_stderr_data :: "string \<Rightarrow> invocation \<Rightarrow> invocation" where
  "on_stderr_data d iv = iv\<lparr>stderr_buf := stderr_buf iv @ d\<rparr>"

definition on_timeout :: "invocation \<Rightarrow> invocation" where
  "on_timeout iv = iv\<lparr>signals := signals iv @ [SIGTERM], killTimer := Fired\<rparr>"

definition on_close ::
  "int option \<Rightarrow> (string \<rightharpoonup> bool) \<times> invocation \<Rightarrow> (string \<rightharpoonup> bool) \<times> invocation" where
  "on_close code = (\<lambda>(rs, iv).
     (mark rs (scriptName iv) False,
      iv\<lparr>killTimer := clearTimeout (killTimer iv),
          promise := resolve (promise iv)
            \<lparr>jobId = inv_jobId iv, script = scriptName iv, exitCode = code,
             stdout = take 20000 (stdout_buf iv),
             stderr = take 20000 (stderr_buf iv)\<rparr>\<rparr>))"

definition on_error ::
  "string \<Rightarrow> (string \<rightharpoonup> bool) \<times> invocation \<Rightarrow> (string \<rightharpoonup> bool) \<times> invocation" where
  "on_error err = (\<lambda>(rs, iv).
     (mark rs (scriptName iv) False,
      iv\<lparr>killTimer := clearTimeout (killTimer iv),
          promise := reject (promise iv) (ChildError err)\<rparr>))"

text \<open>
  The events one child can deliver, and the handler each of them runs. A timer
  fires only while it is armed. \<open>deliver_all\<close> runs the handlers on any sequence of
  events, in any order.
\<close>

datatype child_event =
  StdoutData string | StderrData string | TimerFired | Close "int option" | ChildErr string

fun deliver ::
  "child_event \<Rightarrow> (string \<rightharpoonup> bool) \<times> invocation \<Rightarrow> (string \<rightharpoonup> bool) \<times> invocation" where
  "deliver (StdoutData d) (rs, iv) = (rs, on_stdout_data d iv)"
| "deliver (StderrData d) (rs, iv) = (rs, on_stderr_data d iv)"
| "deliver TimerFired (rs, iv) =
     (case killTimer iv of Armed _ \<Rightarrow> (rs, on_timeout iv) | _ \<Rightarrow> (rs, iv))"
| "deliver (Close code) (rs, iv) = on_close code (rs, iv)"
| "deliver (ChildErr err) (rs, iv) = on_error err (rs, iv)"

fun deliver_all ::
  "child_event list \<Rightarrow> (string \<rightharpoonup> bool) \<times> invocation \<Rightarrow> (string \<rightharpoonup> bool) \<times> invocation" where
  "deliver_all [] x = x"
| "deliver_all (e # es) x = deliver_all es (deliver e x)"

fun is_final :: "child_event \<Rightarrow> bool" where
  "is_final (Close _) = True"
| "is_final (ChildErr _) = True"
| "is_final _ = False"

text \<open>A stretch of the child's life before its final event.\<close>

definition streaming :: "child_event list \<Rightarrow> bool" where
  "streaming es = list_all (\<lambda>e. \<not> is_final e) es"

text \<open>Everything the child wrote to each stream during a list of events.\<close>

fun stdout_of :: "child_event list \<Rightarrow> string" where
  "stdout_of [] = []"
| "stdout_of (StdoutData d # es) = d @ stdout_of es"
| "stdout_of (_ # es) = stdout_of es"

fun stderr_of :: "child_event list \<Rightarrow> string" where
  "stderr_of [] = []"
| "stderr_of (StderrData d # es) = d @ stderr_of es"
| "stderr_of (_ # es) = stderr_of es"

subsection \<open>Several invocations\<close>

text \<open>
  \<open>live\<close> lists the children that were spawned and have not closed. \<open>Invoke\<close> is a
  call of \<open>runScript\<close>, \<open>Child k e\<close> the event \<open>e\<close> of the \<open>k\<close>-th such child.

  The child-process library is not part of the repository. Node.js emits \<open>close\<close>
  as the last event of a child, after its exit and also after the \<open>error\<close> of a
  child that could not be spawned: a child therefore stays in \<open>live\<close> after its
  \<open>error\<close> and leaves at its \<open>close\<close>. The handlers are those of the invocation
  that spawned the child, whatever has happened to the running set since.
\<close>

record rstate =
  runningScripts :: "string \<rightharpoonup> bool"
  live :: "invocation list"

definition init_rstate :: rstate where
  "init_rstate = \<lparr>runningScripts = Map.empty, live = []\<rparr>"

datatype sys_event = Invoke string "string list" string | Child nat child_event

fun is_close :: "child_event \<Rightarrow> bool" where
  "is_close (Close _) = True"
| "is_close _ = False"

fun sys_step :: "sys_event \<Rightarrow> rstate \<Rightarrow> rstate" where
  "sys_step (Invoke scriptPath args jid) s =
     (case runScript (runningScripts s) scriptPath args jid of
        (rs, Inl e) \<Rightarrow> s\<lparr>runningScripts := rs\<rparr>
      | (rs, Inr iv) \<Rightarrow> s\<lparr>runningScripts := rs, live := live s @ [iv]\<rparr>)"
| "sys_step (Child k e) s =
     (if k < length (live s) then
        (case deliver e (runningScripts s, live s ! k) of
           (rs, iv) \<Rightarrow>
             if is_close e
             then s\<lparr>runningScripts := rs, live := take k (live s) @ drop (Suc k) (live s)\<rparr>
             else s\<lparr>runningScripts := rs, live := (live s)[k := iv]\<rparr>)
      else s)"

fun sys_run :: "sys_event list \<Rightarrow> rstate \<Rightarrow> rstate" where
  "sys_run [] s = s"
| "sys_run (e # es) s = sys_run es (sys_step e s)"

text \<open>An invocation is executing from the spawn of its child until its promise
  settles. \<open>executing\<close> counts the executing invocations of a program.\<close>

definition executing :: "rstate \<Rightarrow> string \<Rightarrow> nat" where
  "executing s name =
     length (filter (\<lambda>iv. scriptName iv = name \<and> promise iv = Pending) (live s))"

section \<open>Invariants\<close>

text \<open>The two bounds of the queue state.\<close>

definition queue_inv :: "config \<Rightarrow> qstate \<Rightarrow> bool" where
  "queue_inv cfg s =
     (running s \<le> MAX_CONCURRENT cfg \<and> length (queue s) \<le> MAX_QUEUE_SIZE cfg)"

text \<open>The counter covers every unit whose promise is pending.\<close>

definition executing_inv :: "qstate \<Rightarrow> bool" where
  "executing_inv s = (int (length (inflight s)) \<le> running s)"

text \<open>No free slot while a unit is pending.\<close>

definition no_idle_backlog :: "config \<Rightarrow> qstate \<Rightarrow> bool" where
  "no_idle_backlog cfg s = (\<not> (running s < MAX_CONCURRENT cfg \<and> queue s \<noteq> []))"

text \<open>Slots counted in \<open>running\<close> that no pending promise will give back.\<close>

definition leaked :: "qstate \<Rightarrow> int" where
  "leaked s = running s - int (length (inflight s))"

text \<open>The state of a queue that has only ever run units returning promises.\<close>

definition pump_inv :: "config \<Rightarrow> qstate \<Rightarrow> bool" where
  "pump_inv cfg s =
     (running s = int (length (inflight s)) \<and> running s \<le> MAX_CONCURRENT cfg
      \<and> no_idle_backlog cfg s \<and> all_async (queue s))"

section \<open>Lemmas about the queue\<close>

lemma snd_on_settled:
  "snd (on_settled cfg j r s)
     = snd (processQueue cfg
              (s\<lparr>inflight := remove1 j (inflight s), running := running s - 1\<rparr>))"
  by (simp add: on_settled_def split: prod.splits outcome.splits)

lemma processQueue_queue_inv:
  "queue_inv cfg s \<Longrightarrow> queue_inv cfg (snd (processQueue cfg s))"
  by (auto simp: queue_inv_def processQueue_def Let_def split: list.splits behaviour.splits)

lemma snoc_eq_Cons_length: "xs @ [j] = y # ys \<Longrightarrow> length ys = length xs"
  by (cases xs) auto

lemma enqueue_queue_inv:
  "queue_inv cfg s \<Longrightarrow> queue_inv cfg (snd (enqueue cfg j s))"
  by (auto simp: queue_inv_def enqueue_def processQueue_def Let_def
           split: list.splits behaviour.splits dest: snoc_eq_Cons_length)

lemma on_settled_queue_inv:
  "queue_inv cfg s \<Longrightarrow> queue_inv cfg (snd (on_settled cfg j r s))"
  unfolding snd_on_settled
  by (auto simp: queue_inv_def processQueue_def Let_def split: list.splits behaviour.splits)

lemma step_queue_inv: "queue_inv cfg s \<Longrightarrow> queue_inv cfg (step cfg e s)"
  by (cases e) (simp_all add: enqueue_queue_inv on_settled_queue_inv)

lemma run_queue_inv: "queue_inv cfg s \<Longrightarrow> queue_inv cfg (run cfg es s)"
  by (induction es arbitrary: s) (simp_all add: step_queue_inv)

lemma processQueue_executing:
  "executing_inv s \<Longrightarrow> executing_inv (snd (processQueue cfg s))"
  by (auto simp: executing_inv_def processQueue_def Let_def split: list.splits behaviour.splits)

lemma step_executing: "executing_inv s \<Longrightarrow> executing_inv (step cfg e s)"
proof (cases e)
  case (Submit j)
  assume "executing_inv s"
  then have "executing_inv (s\<lparr>queue := queue s @ [j]\<rparr>)" by (simp add: executing_inv_def)
  from processQueue_executing[OF this, of cfg] show ?thesis using Submit \<open>executing_inv s\<close>
    by (auto simp: enqueue_def split: prod.splits outcome.splits)
next
  case (Settle k r)
  assume a: "executing_inv s"
  show ?thesis
  proof (cases "k < length (inflight s)")
    case True
    then have "executing_inv (s\<lparr>inflight := remove1 (inflight s ! k) (inflight s), running := running s - 1\<rparr>)"
      using a by (auto simp: executing_inv_def length_remove1)
    from processQueue_executing[OF this, of cfg] show ?thesis using Settle True
      by (simp add: snd_on_settled)
  next
    case False then show ?thesis using Settle a by simp
  qed
qed

lemma run_executing: "executing_inv s \<Longrightarrow> executing_inv (run cfg es s)"
  by (induction es arbitrary: s) (simp_all add: step_executing)

lemma processQueue_no_idle:
  "no_idle_backlog cfg s \<Longrightarrow> no_idle_backlog cfg (snd (processQueue cfg s))"
  by (auto simp: no_idle_backlog_def processQueue_def Let_def split: list.splits behaviour.splits)

lemma enqueue_no_idle:
  "no_idle_backlog cfg s \<Longrightarrow> no_idle_backlog cfg (snd (enqueue cfg j s))"
  by (auto simp: no_idle_backlog_def enqueue_def processQueue_def Let_def split: list.splits behaviour.splits)

lemma on_settled_no_idle:
  "no_idle_backlog cfg s \<Longrightarrow> queue_inv cfg s \<Longrightarrow> no_idle_backlog cfg (snd (on_settled cfg j r s))"
  unfolding snd_on_settled
  by (auto simp: no_idle_backlog_def queue_inv_def processQueue_def Let_def
        split: list.splits behaviour.splits)

lemma step_no_idle:
  "no_idle_backlog cfg s \<Longrightarrow> queue_inv cfg s \<Longrightarrow> no_idle_backlog cfg (step cfg e s)"
  by (cases e) (simp_all add: enqueue_no_idle on_settled_no_idle)

lemma run_no_idle:
  "no_idle_backlog cfg s \<Longrightarrow> queue_inv cfg s \<Longrightarrow> no_idle_backlog cfg (run cfg es s)"
  by (induction es arbitrary: s) (simp_all add: step_no_idle step_queue_inv)

lemma processQueue_conserves:
  "started (snd (processQueue cfg s)) @ queue (snd (processQueue cfg s)) = started s @ queue s"
  by (auto simp: processQueue_def Let_def split: list.splits behaviour.splits)

lemma enqueue_conserves:
  "started (snd (enqueue cfg j s)) @ queue (snd (enqueue cfg j s))
     = started s @ queue s @ (if fst (enqueue cfg j s) = Inr False then [] else [j])"
proof (cases "MAX_QUEUE_SIZE cfg \<le> length (queue s)")
  case True
  then show ?thesis by (simp add: enqueue_def)
next
  case False
  have "started (snd (processQueue cfg (s\<lparr>queue := queue s @ [j]\<rparr>)))
          @ queue (snd (processQueue cfg (s\<lparr>queue := queue s @ [j]\<rparr>)))
        = started s @ queue s @ [j]"
    by (simp add: processQueue_conserves)
  with False show ?thesis
    by (auto simp: enqueue_def split: prod.splits outcome.splits)
qed

lemma on_settled_conserves:
  "started (snd (on_settled cfg j r s)) @ queue (snd (on_settled cfg j r s)) = started s @ queue s"
  by (simp add: snd_on_settled processQueue_conserves)

lemma run_conserves:
  "started (run cfg es s) @ queue (run cfg es s) = started s @ queue s @ accepted cfg es s"
proof (induction es arbitrary: s)
  case Nil
  then show ?case by simp
next
  case (Cons e es)
  show ?case
  proof (cases e)
    case (Submit j)
    then show ?thesis using Cons.IH[of "step cfg e s"] enqueue_conserves[of cfg j s]
      by simp
  next
    case (Settle k r)
    then show ?thesis using Cons.IH[of "step cfg e s"] on_settled_conserves[of cfg "inflight s ! k" r s]
      by simp
  qed
qed

lemma enqueue_accepts:
  "length (queue s) < MAX_QUEUE_SIZE cfg \<Longrightarrow> fst (enqueue cfg j s) \<noteq> Inr False"
  by (auto simp: enqueue_def split: prod.splits outcome.splits)

lemma never_full_accepted:
  "never_full cfg es s \<Longrightarrow> accepted cfg es s = submitted es"
proof (induction es arbitrary: s)
  case Nil
  then show ?case by simp
next
  case (Cons e es)
  then show ?case by (cases e) (simp_all add: enqueue_accepts)
qed

lemma processQueue_leaked:
  "leaked s \<le> leaked (snd (processQueue cfg s))"
  by (auto simp: leaked_def processQueue_def Let_def split: list.splits behaviour.splits)

lemma step_leaked: "leaked s \<le> leaked (step cfg e s)"
proof (cases e)
  case (Submit j)
  have "leaked (s\<lparr>queue := queue s @ [j]\<rparr>) = leaked s" by (simp add: leaked_def)
  with processQueue_leaked[of "s\<lparr>queue := queue s @ [j]\<rparr>" cfg] Submit show ?thesis
    by (auto simp: enqueue_def split: prod.splits outcome.splits)
next
  case (Settle k r)
  show ?thesis
  proof (cases "k < length (inflight s)")
    case True
    then have "leaked (s\<lparr>inflight := remove1 (inflight s ! k) (inflight s), running := running s - 1\<rparr>)
        = leaked s"
      by (auto simp: leaked_def length_remove1)
    with processQueue_leaked[of "s\<lparr>inflight := remove1 (inflight s ! k) (inflight s), running := running s - 1\<rparr>" cfg]
    show ?thesis using Settle True by (simp add: snd_on_settled)
  next
    case False
    then show ?thesis using Settle by simp
  qed
qed

lemma run_leaked: "leaked s \<le> leaked (run cfg es s)"
proof (induction es arbitrary: s)
  case Nil
  then show ?case by simp
next
  case (Cons e es)
  have "leaked s \<le> leaked (step cfg e s)" by (rule step_leaked)
  also have "\<dots> \<le> leaked (run cfg es (step cfg e s))" by (rule Cons.IH)
  finally show ?case by simp
qed

lemma on_settled_pump:
  assumes "pump_inv cfg s" "inflight s = j # rest"
  shows "pump_inv cfg (snd (on_settled cfg j r s))"
  using assms unfolding snd_on_settled
  by (auto simp: pump_inv_def no_idle_backlog_def all_async_def processQueue_def Let_def
           split: list.splits behaviour.splits)

lemma settle_all_drains:
  "pump_inv cfg s \<Longrightarrow> 1 \<le> MAX_CONCURRENT cfg \<Longrightarrow>
     queue (settle_all cfg s) = [] \<and> inflight (settle_all cfg s) = []
     \<and> started (settle_all cfg s) = started s @ queue s"
proof (induction cfg s rule: settle_all.induct)
  case (1 cfg s)
  show ?case
  proof (cases "inflight s")
    case Nil
    with "1.prems" have "queue s = []"
      by (auto simp: pump_inv_def no_idle_backlog_def)
    with Nil show ?thesis by simp
  next
    case (Cons j rest)
    have p: "pump_inv cfg (snd (on_settled cfg j Fulfilled s))"
      using on_settled_pump[OF "1.prems"(1) Cons] .
    from "1.IH"[OF Cons p "1.prems"(2)] on_settled_conserves[of cfg j Fulfilled s] Cons
    show ?thesis by simp
  qed
qed

lemma enqueue_pump:
  "pump_inv cfg s \<Longrightarrow> invoke j = ReturnsPromise \<Longrightarrow> pump_inv cfg (snd (enqueue cfg j s))"
  by (auto simp: enqueue_def pump_inv_def no_idle_backlog_def all_async_def processQueue_def
        Let_def Cons_eq_append_conv split: list.splits behaviour.splits)

lemma on_settled_nth_pump:
  assumes "pump_inv cfg s" "k < length (inflight s)"
  shows "pump_inv cfg (snd (on_settled cfg (inflight s ! k) r s))"
proof -
  let ?s1 = "s\<lparr>inflight := remove1 (inflight s ! k) (inflight s), running := running s - 1\<rparr>"
  have "running ?s1 = int (length (inflight ?s1))"
    using assms by (auto simp: pump_inv_def length_remove1)
  moreover have "running ?s1 \<le> MAX_CONCURRENT cfg" "all_async (queue ?s1)"
    using assms by (auto simp: pump_inv_def)
  moreover have "queue ?s1 \<noteq> [] \<longrightarrow> running ?s1 = MAX_CONCURRENT cfg - 1"
    using assms by (auto simp: pump_inv_def no_idle_backlog_def)
  ultimately show ?thesis
    unfolding snd_on_settled
    by (auto simp: pump_inv_def no_idle_backlog_def all_async_def
          processQueue_def Let_def split: list.splits behaviour.splits)
qed

lemma run_pump:
  "pump_inv cfg s \<Longrightarrow> all_async (submitted es) \<Longrightarrow> pump_inv cfg (run cfg es s)"
proof (induction es arbitrary: s)
  case Nil
  then show ?case by simp
next
  case (Cons e es)
  show ?case
  proof (cases e)
    case (Submit j)
    with Cons.prems have "invoke j = ReturnsPromise" "all_async (submitted es)"
      by (simp_all add: all_async_def)
    with Cons.IH[of "step cfg e s"] enqueue_pump[OF Cons.prems(1), of j] Submit
    show ?thesis by simp
  next
    case (Settle k r)
    with Cons.prems have a: "all_async (submitted es)" by simp
    have "pump_inv cfg (step cfg e s)"
      using Settle on_settled_nth_pump[OF Cons.prems(1), of k r] Cons.prems(1) by simp
    from Cons.IH[OF this a] show ?thesis by simp
  qed
qed

lemma pump_inv_init: "0 \<le> MAX_CONCURRENT cfg \<Longrightarrow> pump_inv cfg init_state"
  by (simp add: pump_inv_def init_state_def no_idle_backlog_def all_async_def)

lemma queue_inv_init: "0 \<le> MAX_CONCURRENT cfg \<Longrightarrow> queue_inv cfg init_state"
  by (simp add: queue_inv_def init_state_def)

lemma pump_quiescent:
  "pump_inv cfg s \<Longrightarrow> 1 \<le> MAX_CONCURRENT cfg \<Longrightarrow> inflight s = [] \<Longrightarrow> queue s = []"
  by (auto simp: pump_inv_def no_idle_backlog_def)

lemma processQueue_async_returns:
  "all_async (queue s) \<Longrightarrow> fst (processQueue cfg s) = Returned"
  by (auto simp: processQueue_def all_async_def Let_def split: list.splits behaviour.splits)

section \<open>Lemmas about the runner\<close>

lemma extname_cong: "basename p' = basename p \<Longrightarrow> extname p' = extname p"
  by (simp add: extname_def)

lemma py_not_proto: "toLowerCase (extname p) = ''.py'' \<Longrightarrow> basename p \<noteq> ''__proto__''"
  by (auto simp add: extname_def toLowerCase_def lower_char_def Let_def)

lemma runScript_marked:
  "is_marked rs (basename p) \<Longrightarrow> runScript rs p args jid = (rs, Inl AlreadyRunning)"
  by (simp add: runScript_def)

lemma runScript_unsupported:
  "\<not> is_marked rs (basename p) \<Longrightarrow> toLowerCase (extname p) \<noteq> ''.py'' \<Longrightarrow>
   runScript rs p args jid =
     (mark (mark rs (basename p) True) (basename p) False,
      Inl (UnsupportedExtension (toLowerCase (extname p))))"
  by (simp add: runScript_def Let_def)

lemma runScript_spawns:
  "\<not> is_marked rs (basename p) \<Longrightarrow> toLowerCase (extname p) = ''.py'' \<Longrightarrow>
   runScript rs p args jid =
     (rs(basename p \<mapsto> True),
      Inr \<lparr>inv_jobId = jid, scriptName = basename p,
           spawned = (''python'', p # args),
           timeout = timeout_for (basename p), killTimer = Armed (timeout_for (basename p)),
           stdout_buf = [], stderr_buf = [], signals = [], promise = Pending\<rparr>)"
  using py_not_proto[of p] by (simp add: runScript_def Let_def mark_def)

lemma runScript_Inr_iff:
  "runScript rs p args jid = (rs1, Inr iv) \<longleftrightarrow>
     \<not> is_marked rs (basename p) \<and> toLowerCase (extname p) = ''.py'' \<and>
     rs1 = rs(basename p \<mapsto> True) \<and>
     iv = \<lparr>inv_jobId = jid, scriptName = basename p,
           spawned = (''python'', p # args),
           timeout = timeout_for (basename p), killTimer = Armed (timeout_for (basename p)),
           stdout_buf = [], stderr_buf = [], signals = [], promise = Pending\<rparr>"
proof (cases "is_marked rs (basename p)")
  case True
  then show ?thesis by (simp add: runScript_marked)
next
  case False
  show ?thesis
  proof (cases "toLowerCase (extname p) = ''.py''")
    case True
    with False show ?thesis by (auto simp: runScript_spawns)
  next
    case ne: False
    with False show ?thesis by (simp add: runScript_unsupported)
  qed
qed

lemma deliver_streaming_fst: "\<not> is_final e \<Longrightarrow> fst (deliver e (rs, iv)) = rs"
  by (cases e) (auto split: timer.splits)

lemma deliver_scriptName: "scriptName (snd (deliver e (rs, iv))) = scriptName iv"
  by (cases e) (auto simp: on_stdout_data_def on_stderr_data_def on_timeout_def on_close_def on_error_def split: timer.splits)

lemma deliver_jobId: "inv_jobId (snd (deliver e (rs, iv))) = inv_jobId iv"
  by (cases e) (auto simp: on_stdout_data_def on_stderr_data_def on_timeout_def on_close_def on_error_def split: timer.splits)

lemma deliver_streaming_promise: "\<not> is_final e \<Longrightarrow> promise (snd (deliver e (rs, iv))) = promise iv"
  by (cases e) (auto simp: on_stdout_data_def on_stderr_data_def on_timeout_def split: timer.splits)

lemma deliver_settled: "promise iv \<noteq> Pending \<Longrightarrow> promise (snd (deliver e (rs, iv))) = promise iv"
  by (cases e; cases "promise iv")
     (auto simp: on_stdout_data_def on_stderr_data_def on_timeout_def on_close_def on_error_def
        resolve_def reject_def split: timer.splits)

lemma deliver_all_settled:
  "promise iv \<noteq> Pending \<Longrightarrow> promise (snd (deliver_all es (rs, iv))) = promise iv"
proof (induction es arbitrary: rs iv)
  case Nil
  then show ?case by simp
next
  case (Cons e es)
  obtain rs' iv' where d: "deliver e (rs, iv) = (rs', iv')" by (cases "deliver e (rs, iv)")
  with deliver_settled[OF Cons.prems, of e rs] have "promise iv' = promise iv" by simp
  with Cons.IH[of iv' rs'] Cons.prems d show ?case by simp
qed

lemma deliver_stdout_buf:
  "\<not> is_final e \<Longrightarrow> stdout_buf (snd (deliver e (rs, iv))) = stdout_buf iv @ stdout_of [e]"
  by (cases e) (auto simp: on_stdout_data_def on_stderr_data_def on_timeout_def split: timer.splits)

lemma deliver_stderr_buf:
  "\<not> is_final e \<Longrightarrow> stderr_buf (snd (deliver e (rs, iv))) = stderr_buf iv @ stderr_of [e]"
  by (cases e) (auto simp: on_stdout_data_def on_stderr_data_def on_timeout_def split: timer.splits)

lemma stdout_of_Cons: "stdout_of (e # es) = stdout_of [e] @ stdout_of es"
  by (cases e) simp_all

lemma stderr_of_Cons: "stderr_of (e # es) = stderr_of [e] @ stderr_of es"
  by (cases e) simp_all

lemma streaming_Cons: "streaming (e # es) \<longleftrightarrow> \<not> is_final e \<and> streaming es"
  by (simp add: streaming_def)

lemma streaming_keeps:
  "streaming es \<Longrightarrow> deliver_all es (rs, iv) = (rs', iv') \<Longrightarrow>
     rs' = rs \<and> promise iv' = promise iv \<and> scriptName iv' = scriptName iv
     \<and> inv_jobId iv' = inv_jobId iv
     \<and> stdout_buf iv' = stdout_buf iv @ stdout_of es
     \<and> stderr_buf iv' = stderr_buf iv @ stderr_of es"
proof (induction es arbitrary: iv)
  case Nil
  then show ?case by simp
next
  case (Cons e es)
  from Cons.prems(1) have nf: "\<not> is_final e" and st: "streaming es"
    by (simp_all add: streaming_Cons)
  obtain iv1 where d: "deliver e (rs, iv) = (rs, iv1)"
    using deliver_streaming_fst[OF nf, of rs iv] by (cases "deliver e (rs, iv)") simp
  from Cons.prems(2) d have "deliver_all es (rs, iv1) = (rs', iv')" by simp
  from Cons.IH[OF st this]
  have ih: "rs' = rs" "promise iv' = promise iv1" "scriptName iv' = scriptName iv1"
    "inv_jobId iv' = inv_jobId iv1" "stdout_buf iv' = stdout_buf iv1 @ stdout_of es"
    "stderr_buf iv' = stderr_buf iv1 @ stderr_of es" by simp_all
  have one: "promise iv1 = promise iv" "scriptName iv1 = scriptName iv"
    "inv_jobId iv1 = inv_jobId iv" "stdout_buf iv1 = stdout_buf iv @ stdout_of [e]"
    "stderr_buf iv1 = stderr_buf iv @ stderr_of [e]"
    using deliver_streaming_promise[OF nf, of rs iv] deliver_scriptName[of e rs iv]
      deliver_jobId[of e rs iv] deliver_stdout_buf[OF nf, of rs iv]
      deliver_stderr_buf[OF nf, of rs iv] d by simp_all
  show ?case
    unfolding ih one stdout_of_Cons[of e es] stderr_of_Cons[of e es] by simp
qed

lemma deliver_timer_spent:
  "\<not> is_final e \<Longrightarrow> killTimer iv = Fired \<Longrightarrow>
     killTimer (snd (deliver e (rs, iv))) = Fired \<and> signals (snd (deliver e (rs, iv))) = signals iv"
  by (cases e) (auto simp: on_stdout_data_def on_stderr_data_def)

lemma streaming_timer_spent:
  "streaming es \<Longrightarrow> killTimer iv = Fired \<Longrightarrow>
     killTimer (snd (deliver_all es (rs, iv))) = Fired
     \<and> signals (snd (deliver_all es (rs, iv))) = signals iv"
proof (induction es arbitrary: rs iv)
  case Nil
  then show ?case by simp
next
  case (Cons e es)
  from Cons.prems(1) have nf: "\<not> is_final e" and st: "streaming es"
    by (simp_all add: streaming_Cons)
  obtain rs1 iv1 where d: "deliver e (rs, iv) = (rs1, iv1)" by (cases "deliver e (rs, iv)")
  with deliver_timer_spent[OF nf Cons.prems(2), of rs]
  have "killTimer iv1 = Fired" "signals iv1 = signals iv" by simp_all
  with Cons.IH[OF st, of iv1 rs1] d show ?case by simp
qed

lemma streaming_timer:
  "streaming es \<Longrightarrow> killTimer iv = Armed t \<Longrightarrow>
     (if TimerFired \<in> set es
      then killTimer (snd (deliver_all es (rs, iv))) = Fired
           \<and> signals (snd (deliver_all es (rs, iv))) = signals iv @ [SIGTERM]
      else killTimer (snd (deliver_all es (rs, iv))) = Armed t
           \<and> signals (snd (deliver_all es (rs, iv))) = signals iv)"
proof (induction es arbitrary: rs iv)
  case Nil
  then show ?case by simp
next
  case (Cons e es)
  from Cons.prems(1) have nf: "\<not> is_final e" and st: "streaming es"
    by (simp_all add: streaming_Cons)
  show ?case
  proof (cases "e = TimerFired")
    case True
    have d: "deliver e (rs, iv) = (rs, on_timeout iv)"
      using True Cons.prems(2) by simp
    have "killTimer (on_timeout iv) = Fired" by (simp add: on_timeout_def)
    from streaming_timer_spent[OF st this, of rs] True d show ?thesis
      by (simp add: on_timeout_def)
  next
    case False
    obtain rs1 iv1 where d: "deliver e (rs, iv) = (rs1, iv1)" by (cases "deliver e (rs, iv)")
    have "killTimer iv1 = Armed t \<and> signals iv1 = signals iv"
      using d nf False Cons.prems(2)
      by (cases e) (auto simp: on_stdout_data_def on_stderr_data_def)
    with Cons.IH[OF st, of iv1 rs1] d False show ?thesis by auto
  qed
qed

lemma close_resolves:
  "promise iv = Pending \<Longrightarrow>
   promise (snd (deliver (Close code) (rs, iv))) =
     Resolved \<lparr>jobId = inv_jobId iv, script = scriptName iv, exitCode = code,
               stdout = take 20000 (stdout_buf iv), stderr = take 20000 (stderr_buf iv)\<rparr>"
  by (simp add: on_close_def resolve_def)

lemma error_rejects:
  "promise iv = Pending \<Longrightarrow>
   promise (snd (deliver (ChildErr err) (rs, iv))) = RejectedWith (ChildError err)"
  by (simp add: on_error_def reject_def)

lemma resolved_origin:
  "promise iv = Pending \<Longrightarrow> promise (snd (deliver_all es (rs, iv))) = Resolved r \<Longrightarrow>
   \<exists>pre code post. es = pre @ Close code # post \<and> streaming pre \<and>
     r = \<lparr>jobId = inv_jobId iv, script = scriptName iv, exitCode = code,
          stdout = take 20000 (stdout_buf iv @ stdout_of pre),
          stderr = take 20000 (stderr_buf iv @ stderr_of pre)\<rparr>"
proof (induction es arbitrary: rs iv)
  case Nil
  then show ?case by simp
next
  case (Cons e es)
  obtain rs1 iv1 where d: "deliver e (rs, iv) = (rs1, iv1)" by (cases "deliver e (rs, iv)")
  show ?case
  proof (cases "is_final e")
    case False
    have p1: "promise iv1 = Pending"
      using deliver_streaming_promise[OF False, of rs iv] d Cons.prems(1) by simp
    from Cons.prems(2) d have "promise (snd (deliver_all es (rs1, iv1))) = Resolved r" by simp
    from Cons.IH[OF p1 this] obtain pre code post where
      es: "es = pre @ Close code # post" and st: "streaming pre" and
      r: "r = \<lparr>jobId = inv_jobId iv1, script = scriptName iv1, exitCode = code,
          stdout = take 20000 (stdout_buf iv1 @ stdout_of pre),
          stderr = take 20000 (stderr_buf iv1 @ stderr_of pre)\<rparr>" by blast
    have one: "scriptName iv1 = scriptName iv"
      "inv_jobId iv1 = inv_jobId iv" "stdout_buf iv1 = stdout_buf iv @ stdout_of [e]"
      "stderr_buf iv1 = stderr_buf iv @ stderr_of [e]"
      using deliver_scriptName[of e rs iv]
        deliver_jobId[of e rs iv] deliver_stdout_buf[OF False, of rs iv]
        deliver_stderr_buf[OF False, of rs iv] d by simp_all
    have "e # es = (e # pre) @ Close code # post" using es by simp
    moreover have "streaming (e # pre)" using st False by (simp add: streaming_Cons)
    moreover have "r = \<lparr>jobId = inv_jobId iv, script = scriptName iv, exitCode = code,
          stdout = take 20000 (stdout_buf iv @ stdout_of (e # pre)),
          stderr = take 20000 (stderr_buf iv @ stderr_of (e # pre))\<rparr>"
      unfolding r one stdout_of_Cons[of e pre] stderr_of_Cons[of e pre] by simp
    ultimately show ?thesis by blast
  next
    case True
    then show ?thesis
    proof (cases e)
      case (Close code)
      have p1: "promise iv1 = Resolved \<lparr>jobId = inv_jobId iv, script = scriptName iv, exitCode = code,
               stdout = take 20000 (stdout_buf iv), stderr = take 20000 (stderr_buf iv)\<rparr>"
        using close_resolves[OF Cons.prems(1), of code rs] d Close by simp
      then have "promise iv1 \<noteq> Pending" by simp
      from deliver_all_settled[OF this, of es rs1] Cons.prems(2) d p1
      have "r = \<lparr>jobId = inv_jobId iv, script = scriptName iv, exitCode = code,
               stdout = take 20000 (stdout_buf iv), stderr = take 20000 (stderr_buf iv)\<rparr>" by simp
      moreover have "e # es = [] @ Close code # es" using Close by simp
      moreover have "streaming []" by (simp add: streaming_def)
      ultimately show ?thesis by (metis append_Nil2 stdout_of.simps(1) stderr_of.simps(1))
    next
      case (ChildErr err)
      have p1: "promise iv1 = RejectedWith (ChildError err)"
        using error_rejects[OF Cons.prems(1), of err rs] d ChildErr by simp
      then have "promise iv1 \<noteq> Pending" by simp
      from deliver_all_settled[OF this, of es rs1] Cons.prems(2) d p1
      show ?thesis by simp
    qed (use True in simp_all)
  qed
qed

text \<open>A concrete call, used to illustrate the theorems below.\<close>

lemma runScript_example:
  "runScript Map.empty ''/opt/airliquide_portugal.py'' [''acme'', ''a.pdf''] ''job-1'' =
     ([''airliquide_portugal.py'' \<mapsto> True],
      Inr \<lparr>inv_jobId = ''job-1'', scriptName = ''airliquide_portugal.py'',
           spawned = (''python'', [''/opt/airliquide_portugal.py'', ''acme'', ''a.pdf'']),
           timeout = 60000, killTimer = Armed 60000, stdout_buf = [], stderr_buf = [],
           signals = [], promise = Pending\<rparr>)"
  by (simp add: runScript_def basename_def extname_def toLowerCase_def lower_char_def
        Let_def is_marked_def mark_def inherited_keys_def timeout_for_def TIMEOUTS_def)

lemma basename_example: "basename ''/opt/airliquide_portugal.py'' = ''airliquide_portugal.py''"
  by (simp add: basename_def)

section \<open>The claims\<close>

text \<open>
  C1. Queue-state invariant: \<open>running \<le> MAX_CONCURRENT\<close> and
  \<open>length pending \<le> MAX_QUEUE_SIZE\<close> are preserved by every operation of the
  admission queue (\<open>enqueue\<close>, the drain step \<open>processQueue\<close>, and the completion
  callback), and hold in every state the queue can reach from its initial state;
  there the number of units actually executing is below the limit as well.
\<close>

theorem queue_bounds_invariant:
  "(queue_inv cfg s \<longrightarrow>
      queue_inv cfg (snd (enqueue cfg j s))
    \<and> queue_inv cfg (snd (processQueue cfg s))
    \<and> queue_inv cfg (snd (on_settled cfg j r s)))
   \<and> (0 \<le> MAX_CONCURRENT cfg \<longrightarrow>
      queue_inv cfg (run cfg es init_state)
    \<and> int (length (inflight (run cfg es init_state))) \<le> MAX_CONCURRENT cfg)"
proof -
  have "executing_inv init_state" by (simp add: executing_inv_def init_state_def)
  then have ex: "executing_inv (run cfg es init_state)" by (rule run_executing)
  {
    assume "0 \<le> MAX_CONCURRENT cfg"
    then have "queue_inv cfg (run cfg es init_state)"
      by (intro run_queue_inv queue_inv_init)
    with ex have "queue_inv cfg (run cfg es init_state)
      \<and> int (length (inflight (run cfg es init_state))) \<le> MAX_CONCURRENT cfg"
      by (simp add: queue_inv_def executing_inv_def)
  }
  then show ?thesis
    by (simp add: enqueue_queue_inv processQueue_queue_inv on_settled_queue_inv)
qed

text \<open>The invariant at the source's limits, after two submissions and a completion.\<close>

theorem queue_bounds_invariant_witness:
  "queue_inv default_config init_state
   \<and> 0 \<le> MAX_CONCURRENT default_config
   \<and> queue_inv default_config (snd (enqueue default_config (Job 1 ReturnsPromise) init_state))
   \<and> queue_inv default_config (snd (processQueue default_config init_state))
   \<and> queue_inv default_config
        (snd (on_settled default_config (Job 1 ReturnsPromise) Fulfilled init_state))
   \<and> queue_inv default_config
        (run default_config
           [Submit (Job 1 ReturnsPromise), Submit (Job 2 ReturnsPromise), Settle 0 Rejected]
           init_state)
   \<and> int (length (inflight (run default_config
           [Submit (Job 1 ReturnsPromise), Submit (Job 2 ReturnsPromise), Settle 0 Rejected]
           init_state))) \<le> MAX_CONCURRENT default_config"
  using queue_bounds_invariant[of default_config init_state "Job 1 ReturnsPromise" Fulfilled
      "[Submit (Job 1 ReturnsPromise), Submit (Job 2 ReturnsPromise), Settle 0 Rejected]"]
  by (simp add: queue_inv_def default_config_def init_state_def)

text \<open>
  C3. Admission capacity. A call of \<open>enqueue\<close> that finds \<open>MAX_QUEUE_SIZE\<close> units
  pending returns \<open>false\<close> and leaves the whole state as it was. A call that finds
  fewer pushes the unit, drains, and returns \<open>true\<close>; when no slot is free the only
  change is the unit appended to the pending sequence, and in every case the unit
  is the last of the started-then-pending order. The units are units of work as
  the source documents them, functions that return a promise. With
  \<open>MAX_CONCURRENT = 1\<close> and \<open>MAX_QUEUE_SIZE = 2\<close>, three submissions in a row are
  accepted, the first one started and the other two pending, and a fourth is
  rejected with \<open>false\<close>.
\<close>

theorem enqueue_capacity:
  "(length (queue s) = MAX_QUEUE_SIZE cfg \<longrightarrow> enqueue cfg j s = (Inr False, s))
   \<and> (length (queue s) < MAX_QUEUE_SIZE cfg \<and> all_async (queue s @ [j]) \<longrightarrow>
        fst (enqueue cfg j s) = Inr True
      \<and> snd (enqueue cfg j s) = snd (processQueue cfg (s\<lparr>queue := queue s @ [j]\<rparr>))
      \<and> (MAX_CONCURRENT cfg \<le> running s \<longrightarrow>
            snd (enqueue cfg j s) = s\<lparr>queue := queue s @ [j]\<rparr>)
      \<and> started (snd (enqueue cfg j s)) @ queue (snd (enqueue cfg j s))
          = started s @ queue s @ [j])
   \<and> run \<lparr>MAX_CONCURRENT = 1, MAX_QUEUE_SIZE = 2\<rparr>
        [Submit (Job a ReturnsPromise), Submit (Job b ReturnsPromise),
         Submit (Job c ReturnsPromise)] init_state
      = \<lparr>running = 1, queue = [Job b ReturnsPromise, Job c ReturnsPromise],
         inflight = [Job a ReturnsPromise], started = [Job a ReturnsPromise]\<rparr>
   \<and> accepted \<lparr>MAX_CONCURRENT = 1, MAX_QUEUE_SIZE = 2\<rparr>
        [Submit (Job a ReturnsPromise), Submit (Job b ReturnsPromise),
         Submit (Job c ReturnsPromise), Submit (Job d ReturnsPromise)] init_state
      = [Job a ReturnsPromise, Job b ReturnsPromise, Job c ReturnsPromise]
   \<and> enqueue \<lparr>MAX_CONCURRENT = 1, MAX_QUEUE_SIZE = 2\<rparr> (Job d ReturnsPromise)
        \<lparr>running = 1, queue = [Job b ReturnsPromise, Job c ReturnsPromise],
         inflight = [Job a ReturnsPromise], started = [Job a ReturnsPromise]\<rparr>
      = (Inr False,
         \<lparr>running = 1, queue = [Job b ReturnsPromise, Job c ReturnsPromise],
          inflight = [Job a ReturnsPromise], started = [Job a ReturnsPromise]\<rparr>)"
proof -
  have full: "length (queue s) = MAX_QUEUE_SIZE cfg \<longrightarrow> enqueue cfg j s = (Inr False, s)"
    by (simp add: enqueue_def)
  have room: "length (queue s) < MAX_QUEUE_SIZE cfg \<and> all_async (queue s @ [j]) \<longrightarrow>
        fst (enqueue cfg j s) = Inr True
      \<and> snd (enqueue cfg j s) = snd (processQueue cfg (s\<lparr>queue := queue s @ [j]\<rparr>))
      \<and> (MAX_CONCURRENT cfg \<le> running s \<longrightarrow>
            snd (enqueue cfg j s) = s\<lparr>queue := queue s @ [j]\<rparr>)
      \<and> started (snd (enqueue cfg j s)) @ queue (snd (enqueue cfg j s))
          = started s @ queue s @ [j]"
  proof
    assume a: "length (queue s) < MAX_QUEUE_SIZE cfg \<and> all_async (queue s @ [j])"
    then have r: "fst (processQueue cfg (s\<lparr>queue := queue s @ [j]\<rparr>)) = Returned"
      by (intro processQueue_async_returns) simp
    have t: "fst (enqueue cfg j s) = Inr True"
      using a r by (auto simp: enqueue_def split: prod.splits outcome.splits)
    have e: "snd (enqueue cfg j s) = snd (processQueue cfg (s\<lparr>queue := queue s @ [j]\<rparr>))"
      using a by (auto simp: enqueue_def split: prod.splits outcome.splits)
    have b: "MAX_CONCURRENT cfg \<le> running s \<longrightarrow>
            snd (enqueue cfg j s) = s\<lparr>queue := queue s @ [j]\<rparr>"
      unfolding e by (simp add: processQueue_def)
    from t e b enqueue_conserves[of cfg j s] show
      "fst (enqueue cfg j s) = Inr True
      \<and> snd (enqueue cfg j s) = snd (processQueue cfg (s\<lparr>queue := queue s @ [j]\<rparr>))
      \<and> (MAX_CONCURRENT cfg \<le> running s \<longrightarrow>
            snd (enqueue cfg j s) = s\<lparr>queue := queue s @ [j]\<rparr>)
      \<and> started (snd (enqueue cfg j s)) @ queue (snd (enqueue cfg j s))
          = started s @ queue s @ [j]"
      by simp
  qed
  have scen: "run \<lparr>MAX_CONCURRENT = 1, MAX_QUEUE_SIZE = 2\<rparr>
        [Submit (Job a ReturnsPromise), Submit (Job b ReturnsPromise),
         Submit (Job c ReturnsPromise)] init_state
      = \<lparr>running = 1, queue = [Job b ReturnsPromise, Job c ReturnsPromise],
         inflight = [Job a ReturnsPromise], started = [Job a ReturnsPromise]\<rparr>"
    by (simp add: enqueue_def processQueue_def init_state_def)
  have acc: "accepted \<lparr>MAX_CONCURRENT = 1, MAX_QUEUE_SIZE = 2\<rparr>
        [Submit (Job a ReturnsPromise), Submit (Job b ReturnsPromise),
         Submit (Job c ReturnsPromise), Submit (Job d ReturnsPromise)] init_state
      = [Job a ReturnsPromise, Job b ReturnsPromise, Job c ReturnsPromise]"
    by (simp add: enqueue_def processQueue_def init_state_def)
  have rej: "enqueue \<lparr>MAX_CONCURRENT = 1, MAX_QUEUE_SIZE = 2\<rparr> (Job d ReturnsPromise)
        \<lparr>running = 1, queue = [Job b ReturnsPromise, Job c ReturnsPromise],
         inflight = [Job a ReturnsPromise], started = [Job a ReturnsPromise]\<rparr>
      = (Inr False,
         \<lparr>running = 1, queue = [Job b ReturnsPromise, Job c ReturnsPromise],
          inflight = [Job a ReturnsPromise], started = [Job a ReturnsPromise]\<rparr>)"
    by (simp add: enqueue_def)
  from full room scen acc rej show ?thesis by (intro conjI)
qed

text \<open>At the source's limits: a full queue of twenty behind one running unit rejects,
  and a queue with room behind one running unit accepts and appends.\<close>

theorem enqueue_capacity_witness:
  "length (queue \<lparr>running = 1, queue = replicate 20 (Job 7 ReturnsPromise),
                  inflight = [Job 1 ReturnsPromise], started = [Job 1 ReturnsPromise]\<rparr>)
     = MAX_QUEUE_SIZE default_config
   \<and> enqueue default_config (Job 8 ReturnsPromise)
        \<lparr>running = 1, queue = replicate 20 (Job 7 ReturnsPromise),
         inflight = [Job 1 ReturnsPromise], started = [Job 1 ReturnsPromise]\<rparr>
      = (Inr False,
         \<lparr>running = 1, queue = replicate 20 (Job 7 ReturnsPromise),
          inflight = [Job 1 ReturnsPromise], started = [Job 1 ReturnsPromise]\<rparr>)
   \<and> length (queue \<lparr>running = 1, queue = [Job 2 ReturnsPromise],
                  inflight = [Job 1 ReturnsPromise], started = [Job 1 ReturnsPromise]\<rparr>)
     < MAX_QUEUE_SIZE default_config
   \<and> all_async [Job 2 ReturnsPromise, Job 3 ReturnsPromise]
   \<and> MAX_CONCURRENT default_config \<le> 1
   \<and> fst (enqueue default_config (Job 3 ReturnsPromise)
        \<lparr>running = 1, queue = [Job 2 ReturnsPromise],
         inflight = [Job 1 ReturnsPromise], started = [Job 1 ReturnsPromise]\<rparr>) = Inr True
   \<and> snd (enqueue default_config (Job 3 ReturnsPromise)
        \<lparr>running = 1, queue = [Job 2 ReturnsPromise],
         inflight = [Job 1 ReturnsPromise], started = [Job 1 ReturnsPromise]\<rparr>)
      = \<lparr>running = 1, queue = [Job 2 ReturnsPromise, Job 3 ReturnsPromise],
         inflight = [Job 1 ReturnsPromise], started = [Job 1 ReturnsPromise]\<rparr>"
  using enqueue_capacity[of
      "\<lparr>running = 1, queue = replicate 20 (Job 7 ReturnsPromise),
        inflight = [Job 1 ReturnsPromise], started = [Job 1 ReturnsPromise]\<rparr>"
      default_config "Job 8 ReturnsPromise", THEN conjunct1]
    enqueue_capacity[of
      "\<lparr>running = 1, queue = [Job 2 ReturnsPromise],
        inflight = [Job 1 ReturnsPromise], started = [Job 1 ReturnsPromise]\<rparr>"
      default_config "Job 3 ReturnsPromise", THEN conjunct2, THEN conjunct1]
  by (simp add: default_config_def all_async_def processQueue_def)

text \<open>
  C4. FIFO, exactly once. Take any trace of submissions and completions in which
  no submission finds the queue at capacity. At every point of it the units
  started so far, in the order of their start, followed by the units still
  pending, are exactly the units submitted, in the order of submission: a unit is
  never started twice, never dropped and never overtaken. When every unit returns
  a promise and the limit allows one unit to run, every submitted unit has been
  started once nothing is executing any more, and settling the promises that are
  pending one after the other leads there.
\<close>

theorem fifo_exactly_once:
  "never_full cfg es init_state \<longrightarrow>
     started (run cfg es init_state) @ queue (run cfg es init_state) = submitted es
   \<and> (1 \<le> MAX_CONCURRENT cfg \<and> all_async (submitted es) \<longrightarrow>
        (inflight (run cfg es init_state) = [] \<longrightarrow>
           started (run cfg es init_state) = submitted es)
      \<and> started (settle_all cfg (run cfg es init_state)) = submitted es
      \<and> queue (settle_all cfg (run cfg es init_state)) = []
      \<and> inflight (settle_all cfg (run cfg es init_state)) = [])"
proof
  assume nf: "never_full cfg es init_state"
  let ?s = "run cfg es init_state"
  have cons: "started ?s @ queue ?s = submitted es"
    using run_conserves[of cfg es init_state] never_full_accepted[OF nf]
    by (simp add: init_state_def)
  {
    assume m: "1 \<le> MAX_CONCURRENT cfg" and a: "all_async (submitted es)"
    from m have "pump_inv cfg init_state" by (intro pump_inv_init) simp
    then have p: "pump_inv cfg ?s" using a by (rule run_pump)
    have q: "inflight ?s = [] \<longrightarrow> started ?s = submitted es"
      using pump_quiescent[OF p m] cons by auto
    from settle_all_drains[OF p m] cons q
    have "(inflight ?s = [] \<longrightarrow> started ?s = submitted es)
      \<and> started (settle_all cfg ?s) = submitted es
      \<and> queue (settle_all cfg ?s) = []
      \<and> inflight (settle_all cfg ?s) = []" by simp
  }
  with cons show "started ?s @ queue ?s = submitted es
   \<and> (1 \<le> MAX_CONCURRENT cfg \<and> all_async (submitted es) \<longrightarrow>
        (inflight ?s = [] \<longrightarrow> started ?s = submitted es)
      \<and> started (settle_all cfg ?s) = submitted es
      \<and> queue (settle_all cfg ?s) = []
      \<and> inflight (settle_all cfg ?s) = [])" by blast
qed

text \<open>Three submissions and one completion at the source's limits: the first two
  units have started, the third waits, and all three have started, in order, once the
  pending promises have settled.\<close>

theorem fifo_exactly_once_witness:
  "never_full default_config
     [Submit (Job 1 ReturnsPromise), Submit (Job 2 ReturnsPromise),
      Submit (Job 3 ReturnsPromise), Settle 0 Rejected] init_state
   \<and> 1 \<le> MAX_CONCURRENT default_config
   \<and> all_async [Job 1 ReturnsPromise, Job 2 ReturnsPromise, Job 3 ReturnsPromise]
   \<and> started (run default_config
        [Submit (Job 1 ReturnsPromise), Submit (Job 2 ReturnsPromise),
         Submit (Job 3 ReturnsPromise), Settle 0 Rejected] init_state)
      = [Job 1 ReturnsPromise, Job 2 ReturnsPromise]
   \<and> queue (run default_config
        [Submit (Job 1 ReturnsPromise), Submit (Job 2 ReturnsPromise),
         Submit (Job 3 ReturnsPromise), Settle 0 Rejected] init_state)
      = [Job 3 ReturnsPromise]
   \<and> started (settle_all default_config (run default_config
        [Submit (Job 1 ReturnsPromise), Submit (Job 2 ReturnsPromise),
         Submit (Job 3 ReturnsPromise), Settle 0 Rejected] init_state))
      = [Job 1 ReturnsPromise, Job 2 ReturnsPromise, Job 3 ReturnsPromise]"
proof -
  let ?es = "[Submit (Job 1 ReturnsPromise), Submit (Job 2 ReturnsPromise),
      Submit (Job 3 ReturnsPromise), Settle 0 Rejected]"
  have r: "run default_config ?es init_state
      = \<lparr>running = 1, queue = [Job 3 ReturnsPromise], inflight = [Job 2 ReturnsPromise],
         started = [Job 1 ReturnsPromise, Job 2 ReturnsPromise]\<rparr>"
    by (simp add: enqueue_def on_settled_def processQueue_def init_state_def
          default_config_def)
  have nf: "never_full default_config ?es init_state"
    by (simp add: enqueue_def on_settled_def processQueue_def init_state_def
          default_config_def)
  have m: "1 \<le> MAX_CONCURRENT default_config" by (simp add: default_config_def)
  have a: "all_async (submitted ?es)" by (simp add: all_async_def)
  from fifo_exactly_once[of default_config ?es] nf m a
  have "started (settle_all default_config (run default_config ?es init_state))
      = submitted ?es" by blast
  with nf m a r show ?thesis by (simp add: all_async_def)
qed

text \<open>
  C5. The pump never stalls on a failing job, and no error of a unit is surfaced
  out of the queue. The completion callback does run for a unit whose promise is
  rejected: it decrements \<open>running\<close> and drains, and the next unit is started. But
  the rejection is not absorbed. The promise that \<open>finally\<close> returns is rejected
  with the unit's error and has no handler, for every limit, unit and state; the
  error leaves the queue as an unhandled rejection. At the source's limits, with
  unit 1 executing and unit 2 pending, the rejection of unit 1 starts unit 2 and
  hands the error of unit 1 to the host.
\<close>

theorem rejected_unit_escapes:
  "fst (on_settled cfg j Rejected s) \<noteq> FinallyFulfilled
   \<and> on_settled default_config (Job 1 ReturnsPromise) Rejected
        (run default_config
           [Submit (Job 1 ReturnsPromise), Submit (Job 2 ReturnsPromise)] init_state)
      = (FinallyRejected 1,
         \<lparr>running = 1, queue = [], inflight = [Job 2 ReturnsPromise],
          started = [Job 1 ReturnsPromise, Job 2 ReturnsPromise]\<rparr>)
   \<and> on_settled default_config (Job 1 ReturnsPromise) Fulfilled
        (run default_config
           [Submit (Job 1 ReturnsPromise), Submit (Job 2 ReturnsPromise)] init_state)
      = (FinallyFulfilled,
         \<lparr>running = 1, queue = [], inflight = [Job 2 ReturnsPromise],
          started = [Job 1 ReturnsPromise, Job 2 ReturnsPromise]\<rparr>)"
proof -
  have g: "fst (on_settled cfg j Rejected s) \<noteq> FinallyFulfilled"
    by (simp add: on_settled_def split: prod.splits outcome.splits)
  have r: "run default_config
      [Submit (Job 1 ReturnsPromise), Submit (Job 2 ReturnsPromise)] init_state
      = \<lparr>running = 1, queue = [Job 2 ReturnsPromise], inflight = [Job 1 ReturnsPromise],
         started = [Job 1 ReturnsPromise]\<rparr>"
    by (simp add: enqueue_def processQueue_def init_state_def default_config_def)
  have a: "on_settled default_config (Job 1 ReturnsPromise) Rejected
        (run default_config
           [Submit (Job 1 ReturnsPromise), Submit (Job 2 ReturnsPromise)] init_state)
      = (FinallyRejected 1,
         \<lparr>running = 1, queue = [], inflight = [Job 2 ReturnsPromise],
          started = [Job 1 ReturnsPromise, Job 2 ReturnsPromise]\<rparr>)"
    unfolding r by (simp add: on_settled_def processQueue_def default_config_def)
  have b: "on_settled default_config (Job 1 ReturnsPromise) Fulfilled
        (run default_config
           [Submit (Job 1 ReturnsPromise), Submit (Job 2 ReturnsPromise)] init_state)
      = (FinallyFulfilled,
         \<lparr>running = 1, queue = [], inflight = [Job 2 ReturnsPromise],
          started = [Job 1 ReturnsPromise, Job 2 ReturnsPromise]\<rparr>)"
    unfolding r by (simp add: on_settled_def processQueue_def default_config_def)
  from g a b show ?thesis by (intro conjI)
qed

text \<open>
  C10. A unit that throws when it is called. When \<open>processQueue\<close> starts it, the
  exception leaves \<open>processQueue\<close> after the unit has been taken off the queue and
  \<open>running\<close> has been incremented; no completion callback is attached, so the
  slot is counted and belongs to no pending promise. When the unit is started by
  the \<open>enqueue\<close> that submitted it, the exception leaves \<open>enqueue\<close> as well. No later
  event gives the slot back: the number of such slots never decreases, and the units
  executing at any later time are at most \<open>MAX_CONCURRENT\<close> less that number.
\<close>

theorem sync_throw_leaks_slot:
  "(running s < MAX_CONCURRENT cfg \<and> queue s = j # rest \<and> invoke j = ThrowsSync \<longrightarrow>
       processQueue cfg s
         = (Threw (uid j),
            s\<lparr>queue := rest, running := running s + 1, started := started s @ [j]\<rparr>)
     \<and> inflight (snd (processQueue cfg s)) = inflight s
     \<and> leaked (snd (processQueue cfg s)) = leaked s + 1)
   \<and> (running s < MAX_CONCURRENT cfg \<and> queue s = [] \<and> 0 < MAX_QUEUE_SIZE cfg
        \<and> invoke j = ThrowsSync \<longrightarrow>
       fst (enqueue cfg j s) = Inl (uid j)
     \<and> running (snd (enqueue cfg j s)) = running s + 1
     \<and> inflight (snd (enqueue cfg j s)) = inflight s
     \<and> leaked (snd (enqueue cfg j s)) = leaked s + 1)
   \<and> leaked s \<le> leaked (run cfg es s)
   \<and> (queue_inv cfg s \<longrightarrow>
        int (length (inflight (run cfg es s))) \<le> MAX_CONCURRENT cfg - leaked s)"
proof -
  have pq: "running s < MAX_CONCURRENT cfg \<and> queue s = j # rest \<and> invoke j = ThrowsSync \<longrightarrow>
       processQueue cfg s
         = (Threw (uid j),
            s\<lparr>queue := rest, running := running s + 1, started := started s @ [j]\<rparr>)
     \<and> inflight (snd (processQueue cfg s)) = inflight s
     \<and> leaked (snd (processQueue cfg s)) = leaked s + 1"
    by (simp add: processQueue_def leaked_def)
  have enq: "running s < MAX_CONCURRENT cfg \<and> queue s = [] \<and> 0 < MAX_QUEUE_SIZE cfg
        \<and> invoke j = ThrowsSync \<longrightarrow>
       fst (enqueue cfg j s) = Inl (uid j)
     \<and> running (snd (enqueue cfg j s)) = running s + 1
     \<and> inflight (snd (enqueue cfg j s)) = inflight s
     \<and> leaked (snd (enqueue cfg j s)) = leaked s + 1"
    by (simp add: enqueue_def processQueue_def leaked_def)
  have mono: "leaked s \<le> leaked (run cfg es s)" by (rule run_leaked)
  have cap: "queue_inv cfg s \<longrightarrow>
        int (length (inflight (run cfg es s))) \<le> MAX_CONCURRENT cfg - leaked s"
  proof
    assume "queue_inv cfg s"
    then have "queue_inv cfg (run cfg es s)" by (rule run_queue_inv)
    then have "running (run cfg es s) \<le> MAX_CONCURRENT cfg" by (simp add: queue_inv_def)
    with mono show "int (length (inflight (run cfg es s))) \<le> MAX_CONCURRENT cfg - leaked s"
      by (simp add: leaked_def)
  qed
  from pq enq mono cap show ?thesis by (intro conjI)
qed

text \<open>At the source's limits a single throwing unit takes the only slot for good:
  \<open>enqueue\<close> throws, and a unit submitted afterwards is accepted and never started.\<close>

theorem sync_throw_leaks_slot_witness:
  "running init_state < MAX_CONCURRENT default_config
   \<and> queue init_state = []
   \<and> 0 < MAX_QUEUE_SIZE default_config
   \<and> invoke (Job 1 ThrowsSync) = ThrowsSync
   \<and> fst (enqueue default_config (Job 1 ThrowsSync) init_state) = Inl 1
   \<and> leaked (snd (enqueue default_config (Job 1 ThrowsSync) init_state)) = 1
   \<and> snd (enqueue default_config (Job 1 ThrowsSync) init_state)
      = \<lparr>running = 1, queue = [], inflight = [], started = [Job 1 ThrowsSync]\<rparr>
   \<and> queue (init_state\<lparr>queue := [Job 1 ThrowsSync, Job 2 ReturnsPromise]\<rparr>)
      = Job 1 ThrowsSync # [Job 2 ReturnsPromise]
   \<and> processQueue default_config
        (init_state\<lparr>queue := [Job 1 ThrowsSync, Job 2 ReturnsPromise]\<rparr>)
      = (Threw 1, \<lparr>running = 1, queue = [Job 2 ReturnsPromise], inflight = [],
                   started = [Job 1 ThrowsSync]\<rparr>)
   \<and> queue_inv default_config
        \<lparr>running = 1, queue = [], inflight = [], started = [Job 1 ThrowsSync]\<rparr>
   \<and> run default_config [Submit (Job 2 ReturnsPromise), Settle 0 Fulfilled]
        \<lparr>running = 1, queue = [], inflight = [], started = [Job 1 ThrowsSync]\<rparr>
      = \<lparr>running = 1, queue = [Job 2 ReturnsPromise], inflight = [],
         started = [Job 1 ThrowsSync]\<rparr>
   \<and> int (length (inflight (run default_config
        [Submit (Job 2 ReturnsPromise), Settle 0 Fulfilled]
        \<lparr>running = 1, queue = [], inflight = [], started = [Job 1 ThrowsSync]\<rparr>)))
      \<le> MAX_CONCURRENT default_config - 1"
proof -
  let ?s1 = "\<lparr>running = 1, queue = [], inflight = [], started = [Job 1 ThrowsSync]\<rparr>"
  let ?s0 = "init_state\<lparr>queue := [Job 1 ThrowsSync, Job 2 ReturnsPromise]\<rparr>"
  let ?es = "[Submit (Job 2 ReturnsPromise), Settle 0 Fulfilled]"
  have h: "running init_state < MAX_CONCURRENT default_config" "queue init_state = []"
    "0 < MAX_QUEUE_SIZE default_config" "invoke (Job 1 ThrowsSync) = ThrowsSync"
    by (simp_all add: init_state_def default_config_def)
  from sync_throw_leaks_slot[of init_state default_config "Job 1 ThrowsSync" "[]" "[]"] h
  have e: "fst (enqueue default_config (Job 1 ThrowsSync) init_state) = Inl 1"
    "leaked (snd (enqueue default_config (Job 1 ThrowsSync) init_state)) = 1"
    by (simp_all add: leaked_def init_state_def)
  have e2: "snd (enqueue default_config (Job 1 ThrowsSync) init_state) = ?s1"
    by (simp add: enqueue_def processQueue_def init_state_def default_config_def)
  have h0: "running ?s0 < MAX_CONCURRENT default_config"
    "queue ?s0 = Job 1 ThrowsSync # [Job 2 ReturnsPromise]"
    by (simp_all add: init_state_def default_config_def)
  from sync_throw_leaks_slot[of ?s0 default_config "Job 1 ThrowsSync"
      "[Job 2 ReturnsPromise]" "[]"] h0 h(4)
  have p: "processQueue default_config ?s0
      = (Threw 1, \<lparr>running = 1, queue = [Job 2 ReturnsPromise], inflight = [],
                   started = [Job 1 ThrowsSync]\<rparr>)"
    by (simp add: init_state_def)
  have l: "leaked ?s1 = 1" by (simp add: leaked_def)
  have q: "queue_inv default_config ?s1" by (simp add: queue_inv_def default_config_def)
  have r: "run default_config ?es ?s1
      = \<lparr>running = 1, queue = [Job 2 ReturnsPromise], inflight = [],
         started = [Job 1 ThrowsSync]\<rparr>"
    by (simp add: enqueue_def processQueue_def default_config_def)
  from sync_throw_leaks_slot[of ?s1 default_config "Job 2 ReturnsPromise" "[]" ?es] q l
  have c: "int (length (inflight (run default_config ?es ?s1)))
      \<le> MAX_CONCURRENT default_config - 1" by simp
  from h e e2 h0(2) p q r c show ?thesis by (intro conjI)
qed

text \<open>
  C2. Per-program exclusivity: at most one invocation per program basename is
  executing at any time. The running set does not ensure it. The first child of
  \<open>x.py\<close> cannot be spawned and reports an error: its handler clears the flag. A
  second call finds the flag clear and spawns. The \<open>close\<close> of the first child,
  which follows its error, clears the flag once more, although the second
  invocation holds it now. A third call then spawns too, and two invocations of
  \<open>x.py\<close> are executing.
\<close>

theorem stale_close_breaks_exclusivity:
  "executing (sys_run
      [Invoke ''/opt/x.py'' [] ''job-1'', Child 0 (ChildErr ''spawn python EAGAIN''),
       Invoke ''/opt/x.py'' [] ''job-2'', Child 0 (Close (Some (- 11))),
       Invoke ''/opt/x.py'' [] ''job-3''] init_rstate) ''x.py'' = 2
   \<and> map inv_jobId (live (sys_run
      [Invoke ''/opt/x.py'' [] ''job-1'', Child 0 (ChildErr ''spawn python EAGAIN''),
       Invoke ''/opt/x.py'' [] ''job-2'', Child 0 (Close (Some (- 11))),
       Invoke ''/opt/x.py'' [] ''job-3''] init_rstate)) = [''job-2'', ''job-3'']
   \<and> map promise (live (sys_run
      [Invoke ''/opt/x.py'' [] ''job-1'', Child 0 (ChildErr ''spawn python EAGAIN''),
       Invoke ''/opt/x.py'' [] ''job-2'', Child 0 (Close (Some (- 11))),
       Invoke ''/opt/x.py'' [] ''job-3''] init_rstate)) = [Pending, Pending]
   \<and> runningScripts (sys_run
      [Invoke ''/opt/x.py'' [] ''job-1'', Child 0 (ChildErr ''spawn python EAGAIN''),
       Invoke ''/opt/x.py'' [] ''job-2'', Child 0 (Close (Some (- 11)))] init_rstate)
      ''x.py'' = Some False
   \<and> map inv_jobId (live (sys_run
      [Invoke ''/opt/x.py'' [] ''job-1'', Child 0 (ChildErr ''spawn python EAGAIN''),
       Invoke ''/opt/x.py'' [] ''job-2'', Child 0 (Close (Some (- 11)))] init_rstate))
      = [''job-2'']"
proof -
  have b: "basename ''/opt/x.py'' = ''x.py''" by (simp add: basename_def)
  have e: "toLowerCase (extname ''/opt/x.py'') = ''.py''"
    by (simp add: basename_def extname_def toLowerCase_def lower_char_def Let_def)
  have t: "timeout_for ''x.py'' = 180000" by (simp add: timeout_for_def TIMEOUTS_def)
  have m0: "\<not> is_marked Map.empty ''x.py''"
    by (simp add: is_marked_def inherited_keys_def)
  have m1: "\<not> is_marked [''x.py'' \<mapsto> False] ''x.py''"
    by (simp add: is_marked_def)
  from m0 m1 have m: "\<not> is_marked Map.empty (basename ''/opt/x.py'')"
    "\<not> is_marked [''x.py'' \<mapsto> False] (basename ''/opt/x.py'')" by (simp_all add: b)
  note r = runScript_spawns[OF m(1) e] runScript_spawns[OF m(2) e]
  show ?thesis
    by (simp add: r b t executing_def init_rstate_def on_error_def on_close_def mark_def
          reject_def resolve_def clearTimeout_def)
qed

text \<open>
  C6. Timeout. The timer of an invocation is armed with the entry of the table for
  the program's basename: 3 minutes for \<open>airliquide.py\<close> and \<open>nipongases.py\<close>, 1 minute
  for \<open>airliquide_portugal.py\<close>, and 3 minutes for every basename without entry.
  When the timer fires before the child's final event the child is sent \<open>SIGTERM\<close>
  once, the running set is left alone and the promise stays pending: it is not
  rejected. The \<open>close\<close> event that follows resolves it with a result that carries
  the code the child reported and the output captured up to then.
\<close>

theorem timeout_behaviour:
  "timeout_for ''airliquide.py'' = 3 * 60 * 1000
   \<and> timeout_for ''nipongases.py'' = 3 * 60 * 1000
   \<and> timeout_for ''airliquide_portugal.py'' = 1 * 60 * 1000
   \<and> (name \<notin> {''airliquide.py'', ''nipongases.py'', ''airliquide_portugal.py''} \<longrightarrow>
        timeout_for name = 3 * 60 * 1000)
   \<and> (runScript rs p args jid = (rs1, Inr iv) \<and> streaming es \<and> TimerFired \<in> set es
        \<and> deliver_all es (rs', iv) = (rs2, iv2) \<longrightarrow>
        killTimer iv = Armed (timeout_for (basename p))
      \<and> signals iv2 = [SIGTERM]
      \<and> rs2 = rs'
      \<and> promise iv2 = Pending
      \<and> promise (snd (deliver (Close code) (rs2, iv2)))
          = Resolved \<lparr>jobId = jid, script = basename p, exitCode = code,
                       stdout = take 20000 (stdout_of es),
                       stderr = take 20000 (stderr_of es)\<rparr>)"
proof -
  have tab: "timeout_for ''airliquide.py'' = 3 * 60 * 1000"
    "timeout_for ''nipongases.py'' = 3 * 60 * 1000"
    "timeout_for ''airliquide_portugal.py'' = 1 * 60 * 1000"
    by (simp_all add: timeout_for_def TIMEOUTS_def)
  have dflt: "name \<notin> {''airliquide.py'', ''nipongases.py'', ''airliquide_portugal.py''} \<longrightarrow>
        timeout_for name = 3 * 60 * 1000"
    by (simp add: timeout_for_def TIMEOUTS_def)
  have fire: "runScript rs p args jid = (rs1, Inr iv) \<and> streaming es \<and> TimerFired \<in> set es
        \<and> deliver_all es (rs', iv) = (rs2, iv2) \<longrightarrow>
        killTimer iv = Armed (timeout_for (basename p))
      \<and> signals iv2 = [SIGTERM]
      \<and> rs2 = rs'
      \<and> promise iv2 = Pending
      \<and> promise (snd (deliver (Close code) (rs2, iv2)))
          = Resolved \<lparr>jobId = jid, script = basename p, exitCode = code,
                       stdout = take 20000 (stdout_of es),
                       stderr = take 20000 (stderr_of es)\<rparr>"
  proof
    assume h: "runScript rs p args jid = (rs1, Inr iv) \<and> streaming es \<and> TimerFired \<in> set es
        \<and> deliver_all es (rs', iv) = (rs2, iv2)"
    then have iv: "iv = \<lparr>inv_jobId = jid, scriptName = basename p,
           spawned = (''python'', p # args),
           timeout = timeout_for (basename p), killTimer = Armed (timeout_for (basename p)),
           stdout_buf = [], stderr_buf = [], signals = [], promise = Pending\<rparr>"
      by (simp add: runScript_Inr_iff)
    then have arm: "killTimer iv = Armed (timeout_for (basename p))" by simp
    from h have st: "streaming es" and tf: "TimerFired \<in> set es"
      and d: "deliver_all es (rs', iv) = (rs2, iv2)" by simp_all
    from streaming_keeps[OF st d] iv
    have k: "rs2 = rs'" "promise iv2 = Pending" "scriptName iv2 = basename p"
      "inv_jobId iv2 = jid" "stdout_buf iv2 = stdout_of es" "stderr_buf iv2 = stderr_of es"
      by simp_all
    from streaming_timer[OF st arm, of rs'] tf d iv
    have sg: "signals iv2 = [SIGTERM]" by simp
    from close_resolves[OF k(2), of code rs2] k
    have "promise (snd (deliver (Close code) (rs2, iv2)))
          = Resolved \<lparr>jobId = jid, script = basename p, exitCode = code,
                       stdout = take 20000 (stdout_of es),
                       stderr = take 20000 (stderr_of es)\<rparr>" by simp
    with arm sg k(1,2) show "killTimer iv = Armed (timeout_for (basename p))
      \<and> signals iv2 = [SIGTERM]
      \<and> rs2 = rs'
      \<and> promise iv2 = Pending
      \<and> promise (snd (deliver (Close code) (rs2, iv2)))
          = Resolved \<lparr>jobId = jid, script = basename p, exitCode = code,
                       stdout = take 20000 (stdout_of es),
                       stderr = take 20000 (stderr_of es)\<rparr>" by (intro conjI)
  qed
  from tab dflt fire show ?thesis by (intro conjI)
qed

text \<open>A script without entry gets 3 minutes; a run of \<open>airliquide_portugal.py\<close> whose
  timer fires between two chunks of output is killed, stays pending, and resolves at
  \<open>close\<close> with the code \<open>null\<close> of a child ended by a signal.\<close>

theorem timeout_behaviour_witness:
  "''other.py'' \<notin> {''airliquide.py'', ''nipongases.py'', ''airliquide_portugal.py''}
   \<and> timeout_for ''other.py'' = 180000
   \<and> runScript Map.empty ''/opt/airliquide_portugal.py'' [''acme'', ''a.pdf''] ''job-1'' =
     ([''airliquide_portugal.py'' \<mapsto> True],
      Inr \<lparr>inv_jobId = ''job-1'', scriptName = ''airliquide_portugal.py'',
           spawned = (''python'', [''/opt/airliquide_portugal.py'', ''acme'', ''a.pdf'']),
           timeout = 60000, killTimer = Armed 60000, stdout_buf = [], stderr_buf = [],
           signals = [], promise = Pending\<rparr>)
   \<and> streaming [StdoutData ''ab'', TimerFired, StderrData ''killed'']
   \<and> TimerFired \<in> set [StdoutData ''ab'', TimerFired, StderrData ''killed'']
   \<and> deliver_all [StdoutData ''ab'', TimerFired, StderrData ''killed'']
        ([''airliquide_portugal.py'' \<mapsto> True],
         \<lparr>inv_jobId = ''job-1'', scriptName = ''airliquide_portugal.py'',
           spawned = (''python'', [''/opt/airliquide_portugal.py'', ''acme'', ''a.pdf'']),
           timeout = 60000, killTimer = Armed 60000, stdout_buf = [], stderr_buf = [],
           signals = [], promise = Pending\<rparr>)
      = ([''airliquide_portugal.py'' \<mapsto> True],
         \<lparr>inv_jobId = ''job-1'', scriptName = ''airliquide_portugal.py'',
           spawned = (''python'', [''/opt/airliquide_portugal.py'', ''acme'', ''a.pdf'']),
           timeout = 60000, killTimer = Fired, stdout_buf = ''ab'', stderr_buf = ''killed'',
           signals = [SIGTERM], promise = Pending\<rparr>)
   \<and> promise (snd (deliver (Close None)
        ([''airliquide_portugal.py'' \<mapsto> True],
         \<lparr>inv_jobId = ''job-1'', scriptName = ''airliquide_portugal.py'',
           spawned = (''python'', [''/opt/airliquide_portugal.py'', ''acme'', ''a.pdf'']),
           timeout = 60000, killTimer = Fired, stdout_buf = ''ab'', stderr_buf = ''killed'',
           signals = [SIGTERM], promise = Pending\<rparr>)))
      = Resolved \<lparr>jobId = ''job-1'', script = ''airliquide_portugal.py'', exitCode = None,
                   stdout = ''ab'', stderr = ''killed''\<rparr>"
proof -
  let ?es = "[StdoutData ''ab'', TimerFired, StderrData ''killed'']"
  let ?rs = "[''airliquide_portugal.py'' \<mapsto> True]"
  let ?iv = "\<lparr>inv_jobId = ''job-1'', scriptName = ''airliquide_portugal.py'',
           spawned = (''python'', [''/opt/airliquide_portugal.py'', ''acme'', ''a.pdf'']),
           timeout = 60000, killTimer = Armed 60000, stdout_buf = [], stderr_buf = [],
           signals = [], promise = Pending\<rparr>"
  let ?iv2 = "\<lparr>inv_jobId = ''job-1'', scriptName = ''airliquide_portugal.py'',
           spawned = (''python'', [''/opt/airliquide_portugal.py'', ''acme'', ''a.pdf'']),
           timeout = 60000, killTimer = Fired, stdout_buf = ''ab'', stderr_buf = ''killed'',
           signals = [SIGTERM], promise = Pending\<rparr>"
  have n: "''other.py'' \<notin> {''airliquide.py'', ''nipongases.py'', ''airliquide_portugal.py''}"
    by simp
  note t = timeout_behaviour[where name = "''other.py''" and rs = Map.empty
      and p = "''/opt/airliquide_portugal.py''" and args = "[''acme'', ''a.pdf'']"
      and jid = "''job-1''" and ?rs1.0 = ?rs and iv = ?iv and es = ?es and rs' = ?rs
      and ?rs2.0 = ?rs and ?iv2.0 = ?iv2 and code = None]
  from t n have o: "timeout_for ''other.py'' = 180000" by simp
  have st: "streaming ?es" by (simp add: streaming_def)
  have tf: "TimerFired \<in> set ?es" by simp
  have d: "deliver_all ?es (?rs, ?iv) = (?rs, ?iv2)"
    by (simp add: on_stdout_data_def on_stderr_data_def on_timeout_def)
  from t runScript_example st tf d
  have c: "promise (snd (deliver (Close None) (?rs, ?iv2)))
      = Resolved \<lparr>jobId = ''job-1'', script = ''airliquide_portugal.py'', exitCode = None,
                   stdout = ''ab'', stderr = ''killed''\<rparr>"
    by (simp add: basename_example)
  from n o runScript_example st tf d c show ?thesis by (intro conjI)
qed

text \<open>
  C7. Output cap of the result. Whatever events an invocation receives, in
  whatever order, a result it resolves with has at most 20000 characters in
  \<open>stdout\<close> and in \<open>stderr\<close>, carries the job identifier and the basename given to
  \<open>runScript\<close>, and carries the exit code of the \<open>close\<close> event that resolved it,
  unchanged; its two texts are the first 20000 characters of what the child had
  written to each stream before that event.
\<close>

theorem result_output_cap:
  "runScript rs p args jid = (rs1, Inr iv) \<and> deliver_all es (rs', iv) = (rs2, iv2)
     \<and> promise iv2 = Resolved r \<longrightarrow>
     length (stdout r) \<le> 20000 \<and> length (stderr r) \<le> 20000
   \<and> jobId r = jid \<and> script r = basename p
   \<and> (\<exists>pre code post. es = pre @ Close code # post \<and> streaming pre
        \<and> exitCode r = code
        \<and> stdout r = take 20000 (stdout_of pre)
        \<and> stderr r = take 20000 (stderr_of pre))"
proof
  assume h: "runScript rs p args jid = (rs1, Inr iv) \<and> deliver_all es (rs', iv) = (rs2, iv2)
     \<and> promise iv2 = Resolved r"
  then have iv: "iv = \<lparr>inv_jobId = jid, scriptName = basename p,
           spawned = (''python'', p # args),
           timeout = timeout_for (basename p), killTimer = Armed (timeout_for (basename p)),
           stdout_buf = [], stderr_buf = [], signals = [], promise = Pending\<rparr>"
    by (simp add: runScript_Inr_iff)
  then have pend: "promise iv = Pending" by simp
  from h have "promise (snd (deliver_all es (rs', iv))) = Resolved r" by simp
  from resolved_origin[OF pend this] obtain pre code post where
    es: "es = pre @ Close code # post" and st: "streaming pre" and
    r: "r = \<lparr>jobId = inv_jobId iv, script = scriptName iv, exitCode = code,
          stdout = take 20000 (stdout_buf iv @ stdout_of pre),
          stderr = take 20000 (stderr_buf iv @ stderr_of pre)\<rparr>" by blast
  from r iv have r': "r = \<lparr>jobId = jid, script = basename p, exitCode = code,
          stdout = take 20000 (stdout_of pre), stderr = take 20000 (stderr_of pre)\<rparr>"
    by simp
  have f: "length (stdout r) \<le> 20000" "length (stderr r) \<le> 20000"
    "jobId r = jid" "script r = basename p"
    unfolding r' by simp_all
  have "es = pre @ Close code # post \<and> streaming pre \<and> exitCode r = code
        \<and> stdout r = take 20000 (stdout_of pre) \<and> stderr r = take 20000 (stderr_of pre)"
    using es st unfolding r' by simp
  then have "\<exists>pre code post. es = pre @ Close code # post \<and> streaming pre
        \<and> exitCode r = code
        \<and> stdout r = take 20000 (stdout_of pre)
        \<and> stderr r = take 20000 (stderr_of pre)" by blast
  with f show "length (stdout r) \<le> 20000 \<and> length (stderr r) \<le> 20000
   \<and> jobId r = jid \<and> script r = basename p
   \<and> (\<exists>pre code post. es = pre @ Close code # post \<and> streaming pre
        \<and> exitCode r = code
        \<and> stdout r = take 20000 (stdout_of pre)
        \<and> stderr r = take 20000 (stderr_of pre))" by (intro conjI)
qed

text \<open>A child that writes 30000 characters to its standard output and exits with
  code 3: the result holds the first 20000 of them.\<close>

theorem result_output_cap_witness:
  "runScript Map.empty ''/opt/airliquide_portugal.py'' [''acme'', ''a.pdf''] ''job-1'' =
     ([''airliquide_portugal.py'' \<mapsto> True],
      Inr \<lparr>inv_jobId = ''job-1'', scriptName = ''airliquide_portugal.py'',
           spawned = (''python'', [''/opt/airliquide_portugal.py'', ''acme'', ''a.pdf'']),
           timeout = 60000, killTimer = Armed 60000, stdout_buf = [], stderr_buf = [],
           signals = [], promise = Pending\<rparr>)
   \<and> promise (snd (deliver_all
        [StdoutData (replicate 30000 CHR ''x''), StderrData ''warn'', Close (Some 3)]
        ([''airliquide_portugal.py'' \<mapsto> True],
         \<lparr>inv_jobId = ''job-1'', scriptName = ''airliquide_portugal.py'',
           spawned = (''python'', [''/opt/airliquide_portugal.py'', ''acme'', ''a.pdf'']),
           timeout = 60000, killTimer = Armed 60000, stdout_buf = [], stderr_buf = [],
           signals = [], promise = Pending\<rparr>)))
      = Resolved \<lparr>jobId = ''job-1'', script = ''airliquide_portugal.py'',
                   exitCode = Some 3, stdout = replicate 20000 CHR ''x'',
                   stderr = ''warn''\<rparr>
   \<and> length (stdout \<lparr>jobId = ''job-1'', script = ''airliquide_portugal.py'',
                   exitCode = Some 3, stdout = replicate 20000 CHR ''x'',
                   stderr = ''warn''\<rparr>) \<le> 20000"
proof -
  let ?rs = "[''airliquide_portugal.py'' \<mapsto> True]"
  let ?iv = "\<lparr>inv_jobId = ''job-1'', scriptName = ''airliquide_portugal.py'',
           spawned = (''python'', [''/opt/airliquide_portugal.py'', ''acme'', ''a.pdf'']),
           timeout = 60000, killTimer = Armed 60000, stdout_buf = [], stderr_buf = [],
           signals = [], promise = Pending\<rparr>"
  let ?es = "[StdoutData (replicate 30000 CHR ''x''), StderrData ''warn'', Close (Some 3)]"
  let ?r = "\<lparr>jobId = ''job-1'', script = ''airliquide_portugal.py'',
                   exitCode = Some 3, stdout = replicate 20000 CHR ''x'',
                   stderr = ''warn''\<rparr>"
  have d: "promise (snd (deliver_all ?es (?rs, ?iv))) = Resolved ?r"
    by (simp add: on_stdout_data_def on_stderr_data_def on_close_def resolve_def)
  obtain rs2 iv2 where e: "deliver_all ?es (?rs, ?iv) = (rs2, iv2)"
    by (cases "deliver_all ?es (?rs, ?iv)")
  with d have p: "promise iv2 = Resolved ?r" by simp
  from result_output_cap[where rs = Map.empty and p = "''/opt/airliquide_portugal.py''"
      and args = "[''acme'', ''a.pdf'']" and jid = "''job-1''" and ?rs1.0 = ?rs and iv = ?iv
      and es = ?es and rs' = ?rs and ?rs2.0 = rs2 and ?iv2.0 = iv2 and r = ?r]
    runScript_example e p
  have "length (stdout ?r) \<le> 20000" by blast
  with runScript_example d show ?thesis by (intro conjI)
qed

text \<open>
  C8, as the claim states it: while the child runs, the accumulating buffers never
  exceed the cap of 20000 characters. The data handlers append every chunk in full:
  one chunk of 20001 characters makes the \<open>stdout\<close> variable 20001 characters long.
\<close>

theorem stream_buffer_cap_counterexample:
  "\<not> length (stdout_buf (snd (deliver (StdoutData (replicate 20001 CHR ''x''))
        (fst (runScript Map.empty ''/opt/airliquide_portugal.py'' [''acme'', ''a.pdf'']
                ''job-1''),
         projr (snd (runScript Map.empty ''/opt/airliquide_portugal.py''
                [''acme'', ''a.pdf''] ''job-1'')))))) \<le> 20000"
  by (simp add: runScript_example on_stdout_data_def)

text \<open>
  C8, amended. While the child runs, the two buffers hold everything the child has
  written to the stream so far, without any cap: each chunk is appended in full at
  arrival. The cap applies when the result is built at \<open>close\<close>, which keeps the
  first 20000 characters of each buffer and drops the rest.
\<close>

theorem stream_buffers_accumulate:
  "runScript rs p args jid = (rs1, Inr iv) \<and> streaming es
     \<and> deliver_all es (rs', iv) = (rs2, iv2) \<longrightarrow>
     stdout_buf iv2 = stdout_of es
   \<and> stderr_buf iv2 = stderr_of es
   \<and> stdout_buf (on_stdout_data d iv2) = stdout_of es @ d
   \<and> stderr_buf (on_stderr_data d iv2) = stderr_of es @ d
   \<and> promise (snd (deliver (Close code) (rs2, iv2)))
       = Resolved \<lparr>jobId = jid, script = basename p, exitCode = code,
                    stdout = take 20000 (stdout_of es),
                    stderr = take 20000 (stderr_of es)\<rparr>"
proof
  assume h: "runScript rs p args jid = (rs1, Inr iv) \<and> streaming es
     \<and> deliver_all es (rs', iv) = (rs2, iv2)"
  then have iv: "iv = \<lparr>inv_jobId = jid, scriptName = basename p,
           spawned = (''python'', p # args),
           timeout = timeout_for (basename p), killTimer = Armed (timeout_for (basename p)),
           stdout_buf = [], stderr_buf = [], signals = [], promise = Pending\<rparr>"
    by (simp add: runScript_Inr_iff)
  from h have st: "streaming es" and d: "deliver_all es (rs', iv) = (rs2, iv2)" by simp_all
  from streaming_keeps[OF st d] iv
  have k: "promise iv2 = Pending" "scriptName iv2 = basename p"
    "inv_jobId iv2 = jid" "stdout_buf iv2 = stdout_of es" "stderr_buf iv2 = stderr_of es"
    by simp_all
  from close_resolves[OF k(1), of code rs2] k
  have c: "promise (snd (deliver (Close code) (rs2, iv2)))
       = Resolved \<lparr>jobId = jid, script = basename p, exitCode = code,
                    stdout = take 20000 (stdout_of es),
                    stderr = take 20000 (stderr_of es)\<rparr>" by simp
  from k(4,5) c show "stdout_buf iv2 = stdout_of es
   \<and> stderr_buf iv2 = stderr_of es
   \<and> stdout_buf (on_stdout_data d iv2) = stdout_of es @ d
   \<and> stderr_buf (on_stderr_data d iv2) = stderr_of es @ d
   \<and> promise (snd (deliver (Close code) (rs2, iv2)))
       = Resolved \<lparr>jobId = jid, script = basename p, exitCode = code,
                    stdout = take 20000 (stdout_of es),
                    stderr = take 20000 (stderr_of es)\<rparr>"
    by (simp add: on_stdout_data_def on_stderr_data_def)
qed

text \<open>Two chunks of 15000 characters: the buffer grows to 30000, and the result
  built at \<open>close\<close> keeps 20000.\<close>

theorem stream_buffers_accumulate_witness:
  "runScript Map.empty ''/opt/airliquide_portugal.py'' [''acme'', ''a.pdf''] ''job-1'' =
     ([''airliquide_portugal.py'' \<mapsto> True],
      Inr \<lparr>inv_jobId = ''job-1'', scriptName = ''airliquide_portugal.py'',
           spawned = (''python'', [''/opt/airliquide_portugal.py'', ''acme'', ''a.pdf'']),
           timeout = 60000, killTimer = Armed 60000, stdout_buf = [], stderr_buf = [],
           signals = [], promise = Pending\<rparr>)
   \<and> streaming [StdoutData (replicate 15000 CHR ''x''),
                 StdoutData (replicate 15000 CHR ''x'')]
   \<and> length (stdout_buf (snd (deliver_all
        [StdoutData (replicate 15000 CHR ''x''), StdoutData (replicate 15000 CHR ''x'')]
        ([''airliquide_portugal.py'' \<mapsto> True],
         \<lparr>inv_jobId = ''job-1'', scriptName = ''airliquide_portugal.py'',
           spawned = (''python'', [''/opt/airliquide_portugal.py'', ''acme'', ''a.pdf'']),
           timeout = 60000, killTimer = Armed 60000, stdout_buf = [], stderr_buf = [],
           signals = [], promise = Pending\<rparr>)))) = 30000
   \<and> promise (snd (deliver (Close (Some 0)) (deliver_all
        [StdoutData (replicate 15000 CHR ''x''), StdoutData (replicate 15000 CHR ''x'')]
        ([''airliquide_portugal.py'' \<mapsto> True],
         \<lparr>inv_jobId = ''job-1'', scriptName = ''airliquide_portugal.py'',
           spawned = (''python'', [''/opt/airliquide_portugal.py'', ''acme'', ''a.pdf'']),
           timeout = 60000, killTimer = Armed 60000, stdout_buf = [], stderr_buf = [],
           signals = [], promise = Pending\<rparr>))))
      = Resolved \<lparr>jobId = ''job-1'', script = ''airliquide_portugal.py'',
                   exitCode = Some 0, stdout = replicate 20000 CHR ''x'', stderr = []\<rparr>"
proof -
  let ?rs = "[''airliquide_portugal.py'' \<mapsto> True]"
  let ?iv = "\<lparr>inv_jobId = ''job-1'', scriptName = ''airliquide_portugal.py'',
           spawned = (''python'', [''/opt/airliquide_portugal.py'', ''acme'', ''a.pdf'']),
           timeout = 60000, killTimer = Armed 60000, stdout_buf = [], stderr_buf = [],
           signals = [], promise = Pending\<rparr>"
  let ?es = "[StdoutData (replicate 15000 CHR ''x''), StdoutData (replicate 15000 CHR ''x'')]"
  have st: "streaming ?es" by (simp add: streaming_def)
  obtain rs2 iv2 where e: "deliver_all ?es (?rs, ?iv) = (rs2, iv2)"
    by (cases "deliver_all ?es (?rs, ?iv)")
  from stream_buffers_accumulate[where rs = Map.empty
      and p = "''/opt/airliquide_portugal.py''"
      and args = "[''acme'', ''a.pdf'']" and jid = "''job-1''" and ?rs1.0 = ?rs and iv = ?iv
      and es = ?es and rs' = ?rs and ?rs2.0 = rs2 and ?iv2.0 = iv2 and code = "Some 0"]
    runScript_example st e
  have b: "stdout_buf iv2 = stdout_of ?es"
    and c: "promise (snd (deliver (Close (Some 0)) (rs2, iv2)))
       = Resolved \<lparr>jobId = ''job-1'', script = basename ''/opt/airliquide_portugal.py'',
                    exitCode = Some 0,
                    stdout = take 20000 (stdout_of ?es),
                    stderr = take 20000 (stderr_of ?es)\<rparr>"
    by blast+
  have l: "length (stdout_buf (snd (deliver_all ?es (?rs, ?iv)))) = 30000"
    unfolding e using b by simp
  have t: "take 20000 (stdout_of ?es) = replicate 20000 CHR ''x''"
    by (simp add: replicate_add[symmetric] del: replicate_add)
  have r: "promise (snd (deliver (Close (Some 0)) (deliver_all ?es (?rs, ?iv))))
      = Resolved \<lparr>jobId = ''job-1'', script = ''airliquide_portugal.py'',
                   exitCode = Some 0, stdout = replicate 20000 CHR ''x'', stderr = []\<rparr>"
    unfolding e using c t by (simp add: basename_example)
  from runScript_example st l r show ?thesis by (intro conjI)
qed

text \<open>
  C9. Spawn failure. When the child of an invocation reports an error instead of
  closing, the handler rejects the promise with that error, and no later event
  turns the rejection into a result; the timer is cancelled, so that it cannot
  fire any more; and the basename is marked as not running, so that the next call
  of \<open>runScript\<close> for a path with that basename spawns a child.
\<close>

theorem spawn_failure_releases:
  "runScript rs p args jid = (rs1, Inr iv) \<and> streaming es
     \<and> deliver_all es (rs', iv) = (rs2, iv2)
     \<and> on_error err (rs2, iv2) = (rs3, iv3) \<longrightarrow>
     promise iv3 = RejectedWith (ChildError err)
   \<and> promise (snd (deliver_all es' (rs3, iv3))) = RejectedWith (ChildError err)
   \<and> (TimerFired \<notin> set es \<longrightarrow> killTimer iv3 = Cleared)
   \<and> deliver TimerFired (rs3, iv3) = (rs3, iv3)
   \<and> rs3 = rs'(basename p \<mapsto> False)
   \<and> \<not> is_marked rs3 (basename p)
   \<and> (basename p' = basename p \<longrightarrow>
        fst (runScript rs3 p' args' jid') = rs3(basename p \<mapsto> True)
      \<and> isl (snd (runScript rs3 p' args' jid')) = False)"
proof
  assume h: "runScript rs p args jid = (rs1, Inr iv) \<and> streaming es
     \<and> deliver_all es (rs', iv) = (rs2, iv2)
     \<and> on_error err (rs2, iv2) = (rs3, iv3)"
  then have iv: "iv = \<lparr>inv_jobId = jid, scriptName = basename p,
           spawned = (''python'', p # args),
           timeout = timeout_for (basename p), killTimer = Armed (timeout_for (basename p)),
           stdout_buf = [], stderr_buf = [], signals = [], promise = Pending\<rparr>"
    and py: "toLowerCase (extname p) = ''.py''"
    by (simp_all add: runScript_Inr_iff)
  from py have np: "basename p \<noteq> ''__proto__''" by (rule py_not_proto)
  from h have st: "streaming es" and d: "deliver_all es (rs', iv) = (rs2, iv2)"
    and e: "on_error err (rs2, iv2) = (rs3, iv3)" by simp_all
  from streaming_keeps[OF st d] iv
  have k: "rs2 = rs'" "promise iv2 = Pending" "scriptName iv2 = basename p" by simp_all
  have arm: "killTimer iv = Armed (timeout_for (basename p))" using iv by simp
  have rs3: "rs3 = rs'(basename p \<mapsto> False)"
    using e k np by (auto simp: on_error_def mark_def)
  have iv3: "iv3 = iv2\<lparr>killTimer := clearTimeout (killTimer iv2),
      promise := RejectedWith (ChildError err)\<rparr>"
    using e k by (auto simp: on_error_def reject_def)
  then have rej: "promise iv3 = RejectedWith (ChildError err)" by simp
  then have "promise iv3 \<noteq> Pending" by simp
  from deliver_all_settled[OF this, of es' rs3] rej
  have stay: "promise (snd (deliver_all es' (rs3, iv3))) = RejectedWith (ChildError err)"
    by simp
  have tm: "killTimer iv2 = (if TimerFired \<in> set es then Fired
      else Armed (timeout_for (basename p)))"
    using streaming_timer[OF st arm, of rs'] d by (simp split: if_splits)
  have cl: "TimerFired \<notin> set es \<longrightarrow> killTimer iv3 = Cleared"
    using tm iv3 by (simp add: clearTimeout_def)
  have off: "deliver TimerFired (rs3, iv3) = (rs3, iv3)"
    using tm iv3 by (simp add: clearTimeout_def)
  have free: "\<not> is_marked rs3 (basename p)"
    using rs3 by (simp add: is_marked_def)
  have again: "basename p' = basename p \<longrightarrow>
        fst (runScript rs3 p' args' jid') = rs3(basename p \<mapsto> True)
      \<and> isl (snd (runScript rs3 p' args' jid')) = False"
  proof
    assume b: "basename p' = basename p"
    then have "toLowerCase (extname p') = ''.py''"
      using py extname_cong[OF b] by simp
    with free b show "fst (runScript rs3 p' args' jid') = rs3(basename p \<mapsto> True)
      \<and> isl (snd (runScript rs3 p' args' jid')) = False"
      by (simp add: runScript_spawns)
  qed
  from rej stay cl off rs3 free again
  show "promise iv3 = RejectedWith (ChildError err)
   \<and> promise (snd (deliver_all es' (rs3, iv3))) = RejectedWith (ChildError err)
   \<and> (TimerFired \<notin> set es \<longrightarrow> killTimer iv3 = Cleared)
   \<and> deliver TimerFired (rs3, iv3) = (rs3, iv3)
   \<and> rs3 = rs'(basename p \<mapsto> False)
   \<and> \<not> is_marked rs3 (basename p)
   \<and> (basename p' = basename p \<longrightarrow>
        fst (runScript rs3 p' args' jid') = rs3(basename p \<mapsto> True)
      \<and> isl (snd (runScript rs3 p' args' jid')) = False)" by (intro conjI)
qed

text \<open>The interpreter is missing: the child reports \<open>ENOENT\<close> at once. The promise is
  rejected, the timer cleared, and the same script can be run again.\<close>

theorem spawn_failure_releases_witness:
  "runScript Map.empty ''/opt/airliquide_portugal.py'' [''acme'', ''a.pdf''] ''job-1'' =
     ([''airliquide_portugal.py'' \<mapsto> True],
      Inr \<lparr>inv_jobId = ''job-1'', scriptName = ''airliquide_portugal.py'',
           spawned = (''python'', [''/opt/airliquide_portugal.py'', ''acme'', ''a.pdf'']),
           timeout = 60000, killTimer = Armed 60000, stdout_buf = [], stderr_buf = [],
           signals = [], promise = Pending\<rparr>)
   \<and> streaming []
   \<and> TimerFired \<notin> set []
   \<and> on_error ''spawn python ENOENT''
        ([''airliquide_portugal.py'' \<mapsto> True],
         \<lparr>inv_jobId = ''job-1'', scriptName = ''airliquide_portugal.py'',
           spawned = (''python'', [''/opt/airliquide_portugal.py'', ''acme'', ''a.pdf'']),
           timeout = 60000, killTimer = Armed 60000, stdout_buf = [], stderr_buf = [],
           signals = [], promise = Pending\<rparr>)
      = ([''airliquide_portugal.py'' \<mapsto> False],
         \<lparr>inv_jobId = ''job-1'', scriptName = ''airliquide_portugal.py'',
           spawned = (''python'', [''/opt/airliquide_portugal.py'', ''acme'', ''a.pdf'']),
           timeout = 60000, killTimer = Cleared, stdout_buf = [], stderr_buf = [],
           signals = [], promise = RejectedWith (ChildError ''spawn python ENOENT'')\<rparr>)
   \<and> basename ''/opt/airliquide_portugal.py'' = basename ''/opt/airliquide_portugal.py''
   \<and> isl (snd (runScript [''airliquide_portugal.py'' \<mapsto> False]
        ''/opt/airliquide_portugal.py'' [''acme'', ''a.pdf''] ''job-2'')) = False
   \<and> fst (runScript [''airliquide_portugal.py'' \<mapsto> False]
        ''/opt/airliquide_portugal.py'' [''acme'', ''a.pdf''] ''job-2'')
      = [''airliquide_portugal.py'' \<mapsto> True]"
proof -
  let ?p = "''/opt/airliquide_portugal.py''"
  let ?rs = "[''airliquide_portugal.py'' \<mapsto> True]"
  let ?rs3 = "[''airliquide_portugal.py'' \<mapsto> False]"
  let ?iv = "\<lparr>inv_jobId = ''job-1'', scriptName = ''airliquide_portugal.py'',
           spawned = (''python'', [?p, ''acme'', ''a.pdf'']),
           timeout = 60000, killTimer = Armed 60000, stdout_buf = [], stderr_buf = [],
           signals = [], promise = Pending\<rparr>"
  let ?iv3 = "\<lparr>inv_jobId = ''job-1'', scriptName = ''airliquide_portugal.py'',
           spawned = (''python'', [?p, ''acme'', ''a.pdf'']),
           timeout = 60000, killTimer = Cleared, stdout_buf = [], stderr_buf = [],
           signals = [], promise = RejectedWith (ChildError ''spawn python ENOENT'')\<rparr>"
  have st: "streaming []" by (simp add: streaming_def)
  have d: "deliver_all [] (?rs, ?iv) = (?rs, ?iv)" by simp
  have e: "on_error ''spawn python ENOENT'' (?rs, ?iv) = (?rs3, ?iv3)"
    by (simp add: on_error_def mark_def reject_def clearTimeout_def)
  from spawn_failure_releases[where rs = Map.empty and p = ?p
      and args = "[''acme'', ''a.pdf'']" and jid = "''job-1''" and ?rs1.0 = ?rs and iv = ?iv
      and es = "[]" and rs' = ?rs and ?rs2.0 = ?rs and ?iv2.0 = ?iv
      and err = "''spawn python ENOENT''" and ?rs3.0 = ?rs3 and ?iv3.0 = ?iv3
      and p' = ?p and args' = "[''acme'', ''a.pdf'']" and jid' = "''job-2''"]
    runScript_example st d e
  have a: "isl (snd (runScript ?rs3 ?p [''acme'', ''a.pdf''] ''job-2'')) = False"
    "fst (runScript ?rs3 ?p [''acme'', ''a.pdf''] ''job-2'') = ?rs3(basename ?p \<mapsto> True)"
    by blast+
  from a(2) have a2: "fst (runScript ?rs3 ?p [''acme'', ''a.pdf''] ''job-2'') = ?rs"
    by (simp add: basename_example)
  from runScript_example st e a(1) a2 show ?thesis by simp
qed

end
